theory Spec2Isabelle
  imports Main "HOL-Library.AList" "HOL-Library.Sublist"
begin

section \<open>Data model\<close>

text \<open>
  The Git Data API objects the sync code handles. An entry of a recursive tree listing
  (\<^verbatim>\<open>item.path\<close>, \<^verbatim>\<open>item.mode\<close>, \<^verbatim>\<open>item.type\<close>, \<^verbatim>\<open>item.sha\<close>) is a \<open>tree_item\<close>; an element
  of the \<^verbatim>\<open>treeUpdates\<close> array is a \<open>tree_update\<close>, whose \<^verbatim>\<open>sha\<close> is \<^verbatim>\<open>null\<close> (\<open>None\<close>) for a
  deletion. Paths, modes and object ids are strings.
\<close>

datatype git_type = Blob | Tree | Commit

record tree_item =
  path :: string
  mode :: string
  item_type :: git_type
  sha :: string

record tree_update =
  u_path :: string
  u_mode :: string
  u_type :: git_type
  u_sha :: "string option"

text \<open>The local variables every loop of the sync mutates: the array of tree updates and
  the four counters.\<close>

record sync_state =
  treeUpdates :: "tree_update list"
  filesUpdated :: nat
  filesAdded :: nat
  filesDeleted :: nat
  filesCleanedUp :: nat

text \<open>The \<^verbatim>\<open>parent\<close> argument has the type \<^verbatim>\<open>"staging" | "production" | "release"\<close>.\<close>

datatype parent = Staging | Production | Release

fun parentName :: "parent \<Rightarrow> string" where
  "parentName Staging = ''staging''"
| "parentName Production = ''production''"
| "parentName Release = ''release''"

section \<open>Remote calls\<close>

text \<open>
  Every remote operation of the two processes, with the arguments the code passes:
  the branch of a ref read; the sha of a tree, commit or blob read; content and encoding
  of a blob creation; \<^verbatim>\<open>base_tree\<close> and \<^verbatim>\<open>tree\<close> of a tree creation; message, tree and
  parents of a commit creation; branch, sha and \<^verbatim>\<open>force\<close> of a ref update; base, head and
  message of a merge.
\<close>

datatype request =
    GetRef string
  | GetTree string
  | GetCommit string
  | GetBlob string
  | CreateBlob string string
  | CreateTree string "tree_update list"
  | CreateCommit string string "string list"
  | UpdateRef string string bool
  | Merge string string string

text \<open>A thrown error, with the two fields the handlers inspect. Every error has a message;
  the status is absent when the error is not an HTTP response.\<close>

record api_error =
  status :: "nat option"
  message :: string

text \<open>
  The remote store is a parameter of the model. Each operation answers with a response or
  an error, and the answer may depend on the requests issued so far in this invocation
  (the log), so that a stateful or failing remote is covered.
\<close>

record octokit =
  get_ref :: "request list \<Rightarrow> string \<Rightarrow> api_error + string"
  get_tree :: "request list \<Rightarrow> string \<Rightarrow> api_error + tree_item list"
  get_commit :: "request list \<Rightarrow> string \<Rightarrow> api_error + string"
  get_blob :: "request list \<Rightarrow> string \<Rightarrow> api_error + string \<times> string"
  create_blob :: "request list \<Rightarrow> string \<Rightarrow> string \<Rightarrow> api_error + string"
  create_tree :: "request list \<Rightarrow> string \<Rightarrow> tree_update list \<Rightarrow> api_error + string"
  create_commit :: "request list \<Rightarrow> string \<Rightarrow> string \<Rightarrow> string list \<Rightarrow> api_error + string"
  update_ref :: "request list \<Rightarrow> string \<Rightarrow> string \<Rightarrow> bool \<Rightarrow> api_error + unit"
  merges :: "request list \<Rightarrow> string \<Rightarrow> string \<Rightarrow> string \<Rightarrow> api_error + unit"

text \<open>A computation that issues requests: it extends the log and either throws or
  returns.\<close>

type_synonym 'a io = "request list \<Rightarrow> (api_error + 'a) \<times> request list"

definition io_return :: "'a \<Rightarrow> 'a io" where
  "io_return v = (\<lambda>log. (Inr v, log))"

definition io_bind :: "'a io \<Rightarrow> ('a \<Rightarrow> 'b io) \<Rightarrow> 'b io" where
  "io_bind m f = (\<lambda>log. case m log of
       (Inl e, log') \<Rightarrow> (Inl e, log')
     | (Inr v, log') \<Rightarrow> f v log')"

definition io_catch :: "'a io \<Rightarrow> (api_error \<Rightarrow> 'a io) \<Rightarrow> 'a io" where
  "io_catch m h = (\<lambda>log. case m log of
       (Inl e, log') \<Rightarrow> h e log'
     | (Inr v, log') \<Rightarrow> (Inr v, log'))"

text \<open>
  Modelled from the spec: \<^verbatim>\<open>rateLimitedRequest\<close> of \<^verbatim>\<open>utils/rate-limited-request.ts\<close>, which
  is not among the sources. Section 4.1: the executor issues the call, retries it a
  bounded number of times and then either returns the response or surfaces the last
  error. One invocation is one logical operation on the remote: it is appended to the
  log and answered by the remote.
\<close>

definition rateLimitedRequest :: "(request list \<Rightarrow> api_error + 'a) \<Rightarrow> request \<Rightarrow> 'a io" where
  "rateLimitedRequest call req = (\<lambda>log. (call log, log @ [req]))"

text \<open>
  Modelled from the spec: \<^verbatim>\<open>batchProcess\<close> of \<^verbatim>\<open>utils/rate-limited-request.ts\<close>, which is not
  among the sources. Section 4.2: the worker is invoked for each item in turn, and a
  single item's failure propagates and aborts the remaining schedule. The worker of the
  sync mutates the enclosing function's variables, so it is a state transformer.
\<close>

fun batchProcess :: "'a list \<Rightarrow> ('a \<Rightarrow> 's \<Rightarrow> 's io) \<Rightarrow> 's \<Rightarrow> 's io" where
  "batchProcess [] worker s = io_return s"
| "batchProcess (x # xs) worker s = io_bind (worker x s) (batchProcess xs worker)"

definition getRef :: "octokit \<Rightarrow> string \<Rightarrow> string io" where
  "getRef gh branch = rateLimitedRequest (\<lambda>log. get_ref gh log branch) (GetRef branch)"

definition getTree :: "octokit \<Rightarrow> string \<Rightarrow> tree_item list io" where
  "getTree gh tree_sha = rateLimitedRequest (\<lambda>log. get_tree gh log tree_sha) (GetTree tree_sha)"

definition getCommit :: "octokit \<Rightarrow> string \<Rightarrow> string io" where
  "getCommit gh commit_sha =
     rateLimitedRequest (\<lambda>log. get_commit gh log commit_sha) (GetCommit commit_sha)"

definition getBlob :: "octokit \<Rightarrow> string \<Rightarrow> (string \<times> string) io" where
  "getBlob gh file_sha = rateLimitedRequest (\<lambda>log. get_blob gh log file_sha) (GetBlob file_sha)"

definition createBlob :: "octokit \<Rightarrow> string \<Rightarrow> string \<Rightarrow> string io" where
  "createBlob gh content encoding =
     rateLimitedRequest (\<lambda>log. create_blob gh log content encoding) (CreateBlob content encoding)"

definition createTree :: "octokit \<Rightarrow> string \<Rightarrow> tree_update list \<Rightarrow> string io" where
  "createTree gh base_tree updates =
     rateLimitedRequest (\<lambda>log. create_tree gh log base_tree updates) (CreateTree base_tree updates)"

definition createCommit :: "octokit \<Rightarrow> string \<Rightarrow> string \<Rightarrow> string list \<Rightarrow> string io" where
  "createCommit gh msg tree_sha parents =
     rateLimitedRequest (\<lambda>log. create_commit gh log msg tree_sha parents)
       (CreateCommit msg tree_sha parents)"

definition updateRef :: "octokit \<Rightarrow> string \<Rightarrow> string \<Rightarrow> bool \<Rightarrow> unit io" where
  "updateRef gh branch new_sha force =
     rateLimitedRequest (\<lambda>log. update_ref gh log branch new_sha force)
       (UpdateRef branch new_sha force)"

definition createMerge :: "octokit \<Rightarrow> string \<Rightarrow> string \<Rightarrow> string \<Rightarrow> unit io" where
  "createMerge gh base head msg =
     rateLimitedRequest (\<lambda>log. merges gh log base head msg) (Merge base head msg)"

section \<open>The filter of \<^verbatim>\<open>updateSGCOnParentPush\<close>\<close>

text \<open>
  Lines 359 to 387, and line 329 for \<^verbatim>\<open>shouldIncludeJson\<close>. \<^verbatim>\<open>startsWith\<close> is \<open>prefix\<close>,
  \<^verbatim>\<open>endsWith\<close> is \<open>suffix\<close>, \<^verbatim>\<open>some\<close> is \<open>list_ex\<close>. \<open>shouldExcludeJson\<close> is the test of the
  deletion loop (lines 522 to 524).
\<close>

definition shopifyFolders :: "string list" where
  "shopifyFolders =
     [''assets'', ''blocks'', ''config'', ''layout'', ''locales'', ''sections'', ''snippets'',
      ''templates'']"

definition isInShopifyFolder :: "string \<Rightarrow> bool" where
  "isInShopifyFolder p =
     list_ex (\<lambda>folder. prefix (folder @ ''/'') p \<or> p = folder) shopifyFolders"

definition shouldIncludeJsonOf :: "bool \<Rightarrow> parent \<Rightarrow> bool" where
  "shouldIncludeJsonOf includeJsonFiles par =
     (includeJsonFiles \<or> par = Staging \<or> par = Release)"

definition isSettingsSchema :: "string \<Rightarrow> bool" where
  "isSettingsSchema p = (p = ''config/settings_schema.json'')"

definition isNotJson :: "bool \<Rightarrow> string \<Rightarrow> bool" where
  "isNotJson shouldIncludeJson p =
     (shouldIncludeJson \<or> \<not> suffix ''.json'' p \<or> isSettingsSchema p)"

definition shopifyFilesOf :: "bool \<Rightarrow> tree_item list \<Rightarrow> tree_item list" where
  "shopifyFilesOf shouldIncludeJson tree =
     filter (\<lambda>item. if item_type item \<noteq> Blob then False
                     else isInShopifyFolder (path item) \<and> isNotJson shouldIncludeJson (path item))
       tree"

definition shouldExcludeJson :: "bool \<Rightarrow> string \<Rightarrow> bool" where
  "shouldExcludeJson shouldIncludeJson filePath =
     (\<not> shouldIncludeJson \<and> suffix ''.json'' filePath \<and> \<not> isSettingsSchema filePath)"

section \<open>The planning loops\<close>

text \<open>
  \<^verbatim>\<open>sgcFiles\<close> is a JavaScript \<^verbatim>\<open>Map\<close> from path to sha, \<^verbatim>\<open>blobsToFetch\<close> one from sha to
  file: \<^verbatim>\<open>set\<close> on a present key replaces the value in place, on a new key appends, and
  \<^verbatim>\<open>entries()\<close> iterates in that order. This is \<open>AList.update\<close> on an association list.
  \<^verbatim>\<open>sgcBlobShas\<close> is a \<^verbatim>\<open>Set\<close> used for membership only. Both are filled by one pass over
  the tree of the sgc branch (lines 407 to 416).
\<close>

definition sgcIndexStep ::
  "(string \<times> string) list \<times> string set \<Rightarrow> tree_item \<Rightarrow> (string \<times> string) list \<times> string set"
where
  "sgcIndexStep acc item =
     (if item_type item = Blob
      then (AList.update (path item) (sha item) (fst acc), insert (sha item) (snd acc))
      else acc)"

definition sgcIndex :: "tree_item list \<Rightarrow> (string \<times> string) list \<times> string set" where
  "sgcIndex sgcTree = foldl sgcIndexStep ([], {}) sgcTree"

definition initialState :: sync_state where
  "initialState =
     \<lparr>treeUpdates = [], filesUpdated = 0, filesAdded = 0, filesDeleted = 0, filesCleanedUp = 0\<rparr>"

definition putEntry :: "tree_item \<Rightarrow> string \<Rightarrow> tree_update" where
  "putEntry shopifyFile s =
     \<lparr>u_path = path shopifyFile, u_mode = mode shopifyFile, u_type = Blob, u_sha = Some s\<rparr>"

definition deleteEntry :: "string \<Rightarrow> tree_update" where
  "deleteEntry filePath = \<lparr>u_path = filePath, u_mode = ''100644'', u_type = Blob, u_sha = None\<rparr>"

text \<open>Both branches that push a new entry count it as an update when the path is in
  \<^verbatim>\<open>sgcFiles\<close> and as an addition otherwise.\<close>

definition pushPut ::
  "(string \<times> string) list \<Rightarrow> tree_item \<Rightarrow> string \<Rightarrow> sync_state \<Rightarrow> sync_state" where
  "pushPut sgcFiles shopifyFile s st =
     (let st' = st\<lparr>treeUpdates := treeUpdates st @ [putEntry shopifyFile s]\<rparr>
      in if map_of sgcFiles (path shopifyFile) \<noteq> None
         then st'\<lparr>filesUpdated := filesUpdated st' + 1\<rparr>
         else st'\<lparr>filesAdded := filesAdded st' + 1\<rparr>)"

text \<open>The body of the loop over \<^verbatim>\<open>shopifyFiles\<close> (lines 428 to 461).\<close>

definition reuseStep ::
  "(string \<times> string) list \<Rightarrow> string set \<Rightarrow> sync_state \<times> (string \<times> tree_item) list \<Rightarrow>
   tree_item \<Rightarrow> sync_state \<times> (string \<times> tree_item) list" where
  "reuseStep sgcFiles sgcBlobShas acc shopifyFile =
     (if map_of sgcFiles (path shopifyFile) = Some (sha shopifyFile) then acc
      else if sha shopifyFile \<in> sgcBlobShas
        then (pushPut sgcFiles shopifyFile (sha shopifyFile) (fst acc), snd acc)
        else (fst acc, AList.update (sha shopifyFile) shopifyFile (snd acc)))"

definition reuseLoop ::
  "(string \<times> string) list \<Rightarrow> string set \<Rightarrow> tree_item list \<Rightarrow>
   sync_state \<times> (string \<times> tree_item) list" where
  "reuseLoop sgcFiles sgcBlobShas shopifyFiles =
     foldl (reuseStep sgcFiles sgcBlobShas) (initialState, []) shopifyFiles"

text \<open>The worker passed to \<^verbatim>\<open>batchProcess\<close> (lines 468 to 505): read the blob, create it
  again, push the entry with the sha of the new blob.\<close>

definition blobWorker ::
  "octokit \<Rightarrow> (string \<times> string) list \<Rightarrow> string \<times> tree_item \<Rightarrow> sync_state \<Rightarrow> sync_state io" where
  "blobWorker gh sgcFiles entry st =
     (case entry of (blobSha, shopifyFile) \<Rightarrow>
        io_bind (getBlob gh blobSha) (\<lambda>blob.
        io_bind (createBlob gh (fst blob) (snd blob)) (\<lambda>newBlob.
        io_return (pushPut sgcFiles shopifyFile newBlob st))))"

text \<open>The body of the deletion loop over \<^verbatim>\<open>sgcFiles.entries()\<close> (lines 511 to 541).\<close>

definition deletionStep ::
  "bool \<Rightarrow> string set \<Rightarrow> sync_state \<Rightarrow> string \<times> string \<Rightarrow> sync_state" where
  "deletionStep shouldIncludeJson parentFilePaths st entry =
     (case entry of (filePath, fileSha) \<Rightarrow>
        if \<not> isInShopifyFolder filePath then st
        else if shouldExcludeJson shouldIncludeJson filePath then st
        else if filePath \<notin> parentFilePaths
          then st\<lparr>treeUpdates := treeUpdates st @ [deleteEntry filePath],
                  filesDeleted := filesDeleted st + 1\<rparr>
          else st)"

text \<open>The body of the cleanup loop over \<^verbatim>\<open>sgcFiles.entries()\<close> (lines 545 to 566).\<close>

definition cleanupStep :: "sync_state \<Rightarrow> string \<times> string \<Rightarrow> sync_state" where
  "cleanupStep st entry =
     (case entry of (filePath, fileSha) \<Rightarrow>
        if \<not> isInShopifyFolder filePath
        then (let alreadyInUpdates = list_ex (\<lambda>u. u_path u = filePath) (treeUpdates st)
              in if \<not> alreadyInUpdates
                 then st\<lparr>treeUpdates := treeUpdates st @ [deleteEntry filePath],
                         filesCleanedUp := filesCleanedUp st + 1\<rparr>
                 else st)
        else st)"

text \<open>Lines 407 to 566 of \<^verbatim>\<open>updateSGCOnParentPush\<close>: from the filtered parent files and
  the tree of the sgc branch to the finished \<^verbatim>\<open>treeUpdates\<close>.\<close>

definition planTreeUpdates ::
  "octokit \<Rightarrow> bool \<Rightarrow> tree_item list \<Rightarrow> tree_item list \<Rightarrow> sync_state io" where
  "planTreeUpdates gh shouldIncludeJson shopifyFiles sgcTree =
     (let sgcFiles = fst (sgcIndex sgcTree);
          sgcBlobShas = snd (sgcIndex sgcTree);
          parentFilePaths = set (map path shopifyFiles);
          st1 = fst (reuseLoop sgcFiles sgcBlobShas shopifyFiles);
          blobsToFetch = snd (reuseLoop sgcFiles sgcBlobShas shopifyFiles)
      in io_bind (batchProcess blobsToFetch (blobWorker gh sgcFiles) st1) (\<lambda>st2.
           let st3 = foldl (deletionStep shouldIncludeJson parentFilePaths) st2 sgcFiles;
               st4 = foldl cleanupStep st3 sgcFiles
           in io_return st4))"

section \<open>\<^verbatim>\<open>updateSGCOnParentPush\<close>\<close>

text \<open>Template literals print a counter in decimal.\<close>

function showNat :: "nat \<Rightarrow> string" where
  "showNat n =
     (if n < 10 then [''0123456789'' ! n]
      else showNat (n div 10) @ [''0123456789'' ! (n mod 10)])"
  by pat_completeness auto
termination
  by (relation "measure id") auto

fun joinWith :: "string \<Rightarrow> string list \<Rightarrow> string" where
  "joinWith sep [] = []"
| "joinWith sep [x] = x"
| "joinWith sep (x # y # ys) = x @ sep @ joinWith sep (y # ys)"

definition commitParts :: "sync_state \<Rightarrow> string list" where
  "commitParts st =
     (if filesAdded st > 0 then [showNat (filesAdded st) @ '' added''] else []) @
     (if filesUpdated st > 0 then [showNat (filesUpdated st) @ '' updated''] else []) @
     (if filesDeleted st > 0 then [showNat (filesDeleted st) @ '' deleted''] else []) @
     (if filesCleanedUp st > 0 then [showNat (filesCleanedUp st) @ '' cleaned up''] else [])"

definition commitMessage :: "string \<Rightarrow> sync_state \<Rightarrow> string" where
  "commitMessage parentBranch st =
     ''Sync Shopify files from '' @ parentBranch @ '' ('' @ joinWith '', '' (commitParts st) @ '')''"

text \<open>
  The function returns nothing. The point at which it returns is kept as the result, one
  value for each of its final log lines: no Shopify file in the parent (line 393), nothing
  to update (line 570), the ref moved to the new commit (line 636), the fallback merge done
  (line 654), the fallback merge failed (line 656), and an error that is only logged
  (line 639, the condition of line 642 false).
\<close>

datatype outcome =
  NoShopifyFiles | NoUpdates | Synced | FallbackMerged | FallbackMergeFailed | SyncFailed

text \<open>The \<^verbatim>\<open>try\<close> block, lines 327 to 636.\<close>

definition syncBody :: "octokit \<Rightarrow> bool \<Rightarrow> parent \<Rightarrow> outcome io" where
  "syncBody gh includeJsonFiles par =
     (let shouldIncludeJson = shouldIncludeJsonOf includeJsonFiles par;
          parentBranch = parentName par;
          sgcBranch = ''sgc-'' @ parentName par
      in io_bind (getRef gh parentBranch) (\<lambda>parentSha.
         io_bind (getRef gh sgcBranch) (\<lambda>sgcSha.
         io_bind (getTree gh parentSha) (\<lambda>parentTree.
           let shopifyFiles = shopifyFilesOf shouldIncludeJson parentTree
           in if shopifyFiles = [] then io_return NoShopifyFiles
              else
                io_bind (getTree gh sgcSha) (\<lambda>sgcTree.
                io_bind (planTreeUpdates gh shouldIncludeJson shopifyFiles sgcTree) (\<lambda>st.
                  if treeUpdates st = [] then io_return NoUpdates
                  else
                    io_bind (createTree gh sgcSha (treeUpdates st)) (\<lambda>newTree.
                    io_bind (createCommit gh (commitMessage parentBranch st) newTree [sgcSha])
                      (\<lambda>newCommit.
                    io_bind (updateRef gh sgcBranch newCommit False) (\<lambda>_.
                    io_return Synced)))))))))"

text \<open>The \<^verbatim>\<open>catch\<close> block, lines 638 to 659. The error of a failed fallback merge is
  logged and not thrown again.\<close>

definition isConflict :: "api_error \<Rightarrow> bool" where
  "isConflict error = (status error = Some 422 \<or> sublist ''conflict'' (message error))"

definition syncHandler :: "octokit \<Rightarrow> parent \<Rightarrow> api_error \<Rightarrow> outcome io" where
  "syncHandler gh par error =
     (if isConflict error
      then io_catch
             (io_bind
                (createMerge gh (''sgc-'' @ parentName par) (parentName par)
                   (''Merge '' @ parentName par @ '' into sgc-'' @ parentName par @
                    '' (fallback from Shopify sync)''))
                (\<lambda>_. io_return FallbackMerged))
             (\<lambda>mergeError. io_return FallbackMergeFailed)
      else io_return SyncFailed)"

definition updateSGCOnParentPush :: "octokit \<Rightarrow> bool \<Rightarrow> parent \<Rightarrow> outcome io" where
  "updateSGCOnParentPush gh includeJsonFiles par =
     io_catch (syncBody gh includeJsonFiles par) (syncHandler gh par)"

section \<open>\<^verbatim>\<open>updateReleaseOnStagingPush\<close>\<close>

definition io_throw :: "api_error \<Rightarrow> 'a io" where
  "io_throw e = (\<lambda>log. (Inl e, log))"

text \<open>The function returns at three points: the release branch is missing (line 368), the
  release is up to date (line 396), the rebase is done (line 432).\<close>

datatype rebase_outcome = ReleaseMissing | UpToDate | Rebased

text \<open>The inner \<^verbatim>\<open>try\<close> (lines 358 to 371) yields \<^verbatim>\<open>releaseExists\<close>; \<open>False\<close> stands for the
  \<^verbatim>\<open>return\<close> of its \<^verbatim>\<open>catch\<close> on a 404.\<close>

definition checkReleaseBranch :: "octokit \<Rightarrow> bool io" where
  "checkReleaseBranch gh =
     io_catch (io_bind (getRef gh ''release'') (\<lambda>_. io_return True))
       (\<lambda>error. if status error = Some 404 then io_return False else io_throw error)"

definition updateReleaseOnStagingPush :: "octokit \<Rightarrow> rebase_outcome io" where
  "updateReleaseOnStagingPush gh =
     io_catch
       (io_bind (checkReleaseBranch gh) (\<lambda>releaseExists.
          if \<not> releaseExists then io_return ReleaseMissing
          else
            io_bind (getRef gh ''staging'') (\<lambda>stagingSha.
            io_bind (getRef gh ''release'') (\<lambda>releaseSha.
              if releaseSha = stagingSha then io_return UpToDate
              else
                io_bind (getCommit gh stagingSha) (\<lambda>stagingCommitTree.
                io_bind (createCommit gh
                           (''Rebase release onto staging ('' @ take 7 stagingSha @ '')'')
                           stagingCommitTree [stagingSha]) (\<lambda>rebaseCommit.
                io_bind (updateRef gh ''release'' rebaseCommit True) (\<lambda>_.
                io_return Rebased)))))))
       (\<lambda>error. io_throw error)"

section \<open>Notions used to state the properties\<close>

subsection \<open>Closed forms of the planning loops\<close>

text \<open>
  What the loops compute, written without the loops; the lemmas \<open>reuseLoop_updates\<close>,
  \<open>reuseLoop_fetch\<close>, \<open>deletionLoop_updates\<close> and \<open>cleanupLoop_exact\<close> below prove the
  equalities. A file needs an entry when \<^verbatim>\<open>sgcFiles\<close> does not hold its path with its sha.
\<close>

definition needsPut :: "(string \<times> string) list \<Rightarrow> tree_item \<Rightarrow> bool" where
  "needsPut sgcFiles f = (map_of sgcFiles (path f) \<noteq> Some (sha f))"

definition lastBySha :: "tree_item list \<Rightarrow> (string \<times> tree_item) list" where
  "lastBySha fs = foldl (\<lambda>m f. AList.update (sha f) f m) [] fs"

definition reusedFiles :: "tree_item list \<Rightarrow> tree_item list \<Rightarrow> tree_item list" where
  "reusedFiles tgt fs =
     [f \<leftarrow> fs. needsPut (fst (sgcIndex tgt)) f \<and> sha f \<in> snd (sgcIndex tgt)]"

definition blobEntries :: "tree_item list \<Rightarrow> tree_item list \<Rightarrow> (string \<times> tree_item) list" where
  "blobEntries tgt fs =
     lastBySha [f \<leftarrow> fs. needsPut (fst (sgcIndex tgt)) f \<and> sha f \<notin> snd (sgcIndex tgt)]"

definition deletedPaths :: "bool \<Rightarrow> tree_item list \<Rightarrow> tree_item list \<Rightarrow> string list" where
  "deletedPaths sij tgt fs =
     [p \<leftarrow> map fst (fst (sgcIndex tgt)).
        isInShopifyFolder p \<and> \<not> shouldExcludeJson sij p \<and> p \<notin> path ` set fs]"

definition cleanedPaths :: "tree_item list \<Rightarrow> tree_item list \<Rightarrow> string list" where
  "cleanedPaths tgt fs =
     [p \<leftarrow> map fst (fst (sgcIndex tgt)).
        \<not> isInShopifyFolder p \<and>
        p \<notin> path ` set (reusedFiles tgt fs) \<union> path ` snd ` set (blobEntries tgt fs)]"

subsection \<open>Shapes of a request log\<close>

text \<open>
  A log of blob copies only: every request is a blob read of an object id satisfying \<open>P\<close>,
  followed by the creation of a blob, except that the log may stop after a read.
\<close>

fun copiesOnly :: "(string \<Rightarrow> bool) \<Rightarrow> request list \<Rightarrow> bool" where
  "copiesOnly P [] = True"
| "copiesOnly P (GetBlob s # CreateBlob c e # rest) = (P s \<and> copiesOnly P rest)"
| "copiesOnly P [GetBlob s] = P s"
| "copiesOnly P _ = False"


fun isMerge :: "request \<Rightarrow> bool" where
  "isMerge (Merge base head msg) = True"
| "isMerge _ = False"

definition noMerge :: "'a io \<Rightarrow> bool" where
  "noMerge m = (\<forall>t. \<exists>new. snd (m t) = t @ new \<and> filter isMerge new = [])"

subsection \<open>The tree a creation request leaves behind\<close>

text \<open>
  Modelled from the spec: the remote store's tree creation, which is a service outside the
  repository. Section 4.6: the new tree is the base tree overlaid with the entries, where
  an entry with a sha writes or replaces the path and an entry without one removes it.
  It is used only to name the target of a second run.
\<close>

definition applyUpdate :: "tree_item list \<Rightarrow> tree_update \<Rightarrow> tree_item list" where
  "applyUpdate tree u =
     (case u_sha u of
        None \<Rightarrow> filter (\<lambda>item. path item \<noteq> u_path u) tree
      | Some s \<Rightarrow>
          (let new = \<lparr>path = u_path u, mode = u_mode u, item_type = u_type u, sha = s\<rparr>
           in if list_ex (\<lambda>item. path item = u_path u) tree
              then map (\<lambda>item. if path item = u_path u then new else item) tree
              else tree @ [new]))"

definition applyTreeUpdates :: "tree_item list \<Rightarrow> tree_update list \<Rightarrow> tree_item list" where
  "applyTreeUpdates tree updates = foldl applyUpdate tree updates"

section \<open>Scenarios\<close>

text \<open>
  Concrete remotes and trees on which the theorems are instantiated. \<open>storeRemote\<close> answers
  every request: the tip of a branch is named after it, the tree of an sgc branch is the
  target and any other tree the source, and a created blob gets the object id it was read
  under (the store is content-addressed).
\<close>

definition blobItem :: "string \<Rightarrow> string \<Rightarrow> tree_item" where
  "blobItem p s = \<lparr>path = p, mode = ''100644'', item_type = Blob, sha = s\<rparr>"

definition storeRemote :: "tree_item list \<Rightarrow> tree_item list \<Rightarrow> octokit" where
  "storeRemote src tgt =
     \<lparr>get_ref = (\<lambda>log branch. Inr (''tip-'' @ branch)),
      get_tree = (\<lambda>log s. if prefix ''tip-sgc-'' s then Inr tgt else Inr src),
      get_commit = (\<lambda>log s. Inr (''tree-'' @ s)),
      get_blob = (\<lambda>log s. Inr (''content-'' @ s, ''base64'')),
      create_blob = (\<lambda>log content encoding. Inr (drop 8 content)),
      create_tree = (\<lambda>log base updates. Inr ''new-tree''),
      create_commit = (\<lambda>log msg t ps. Inr ''new-commit''),
      update_ref = (\<lambda>log branch s force. Inr ()),
      merges = (\<lambda>log base head msg. Inr ())\<rparr>"

text \<open>A remote that rejects every tree creation as unprocessable, and one that also
  refuses the merge.\<close>

definition rejectingRemote :: "tree_item list \<Rightarrow> tree_item list \<Rightarrow> octokit" where
  "rejectingRemote src tgt =
     (storeRemote src tgt)
       \<lparr>create_tree :=
          (\<lambda>log base updates. Inl \<lparr>status = Some 422, message = ''Unprocessable Entity''\<rparr>)\<rparr>"

definition brokenRemote :: "tree_item list \<Rightarrow> tree_item list \<Rightarrow> octokit" where
  "brokenRemote src tgt =
     (rejectingRemote src tgt)
       \<lparr>merges := (\<lambda>log base head msg. Inl \<lparr>status = Some 409, message = ''Merge conflict''\<rparr>)\<rparr>"

text \<open>A remote on which every branch has the same tip.\<close>

definition mirrorRemote :: octokit where
  "mirrorRemote = (storeRemote [] [])\<lparr>get_ref := (\<lambda>log branch. Inr ''tip'')\<rparr>"

text \<open>The end-to-end scenario of the spec (section 8).\<close>

definition specSource :: "tree_item list" where
  "specSource =
     [blobItem ''assets/a.css'' ''id1'', blobItem ''config/settings_data.json'' ''id2'',
      blobItem ''notes/readme.md'' ''id3'']"

definition specTarget :: "tree_item list" where
  "specTarget =
     [blobItem ''assets/a.css'' ''id1'', blobItem ''config/settings_data.json'' ''id_old'',
      blobItem ''extra/file.txt'' ''id4'']"

text \<open>A parent without any Shopify file.\<close>

definition emptySource :: "tree_item list" where
  "emptySource = [blobItem ''README.md'' ''R'']"

text \<open>Two files of the parent with the same content, which the target does not have.\<close>

definition dupSource :: "tree_item list" where
  "dupSource =
     [blobItem ''assets/a.css'' ''X'', blobItem ''assets/b.css'' ''X'',
      blobItem ''layout/theme.liquid'' ''Y'']"

definition dupTarget :: "tree_item list" where
  "dupTarget = [blobItem ''layout/theme.liquid'' ''Y'']"

text \<open>The settings schema with the content of a later file.\<close>

definition schemaSource :: "tree_item list" where
  "schemaSource =
     [blobItem ''config/settings_schema.json'' ''X'', blobItem ''snippets/schema.liquid'' ''X'',
      blobItem ''layout/theme.liquid'' ''Y'']"



section \<open>The planning loops in closed form\<close>

lemma io_bind_Inr:
  "io_bind m f t = (Inr v, t') \<Longrightarrow> \<exists>a t1. m t = (Inr a, t1) \<and> f a t1 = (Inr v, t')"
  by (auto simp: io_bind_def split: prod.splits sum.splits)

lemma u_deleteEntry [simp]:
  "u_path (deleteEntry p) = p" "u_sha (deleteEntry p) = None"
  by (simp_all add: deleteEntry_def)

lemma u_putEntry [simp]:
  "u_path (putEntry f s) = path f" "u_sha (putEntry f s) = Some s" "u_mode (putEntry f s) = mode f"
  by (simp_all add: putEntry_def)

lemma treeUpdates_pushPut [simp]:
  "treeUpdates (pushPut SF f s st) = treeUpdates st @ [putEntry f s]"
  by (simp add: pushPut_def Let_def)

subsection \<open>\<^verbatim>\<open>sgcFiles\<close> and \<^verbatim>\<open>sgcBlobShas\<close>\<close>

lemma sgcIndex_Nil: "sgcIndex [] = ([], {})"
  by (simp add: sgcIndex_def)

lemma sgcIndex_snoc: "sgcIndex (xs @ [x]) = sgcIndexStep (sgcIndex xs) x"
  by (simp add: sgcIndex_def)

lemma sgcFiles_distinct: "distinct (map fst (fst (sgcIndex t)))"
  by (induction t rule: rev_induct)
     (simp_all add: sgcIndex_Nil sgcIndex_snoc sgcIndexStep_def distinct_update)

lemma sgcFiles_keys:
  "fst ` set (fst (sgcIndex t)) = path ` {it \<in> set t. item_type it = Blob}"
  by (induction t rule: rev_induct)
     (auto simp: sgcIndex_Nil sgcIndex_snoc sgcIndexStep_def dom_update)


lemma sgcFiles_sha_in_blobShas:
  "map_of (fst (sgcIndex t)) p = Some s \<Longrightarrow> s \<in> snd (sgcIndex t)"
  by (induction t arbitrary: p s rule: rev_induct)
     (auto simp: sgcIndex_Nil sgcIndex_snoc sgcIndexStep_def update_conv' split: if_splits)

lemma sgcFiles_has:
  "it \<in> set tgt \<Longrightarrow> item_type it = Blob \<Longrightarrow> path it \<in> set (map fst (fst (sgcIndex tgt)))"
  using sgcFiles_keys[of tgt] by auto

subsection \<open>The loop over \<^verbatim>\<open>shopifyFiles\<close>\<close>

lemma reuseLoop_Nil: "reuseLoop SF SB [] = (initialState, [])"
  by (simp add: reuseLoop_def)

lemma reuseLoop_snoc:
  "reuseLoop SF SB (fs @ [f]) = reuseStep SF SB (reuseLoop SF SB fs) f"
  by (simp add: reuseLoop_def)

lemma reuseLoop_updates:
  "treeUpdates (fst (reuseLoop SF SB fs)) =
     map (\<lambda>f. putEntry f (sha f)) [f \<leftarrow> fs. needsPut SF f \<and> sha f \<in> SB]"
  by (induction fs rule: rev_induct)
     (simp_all add: reuseLoop_Nil reuseLoop_snoc reuseStep_def initialState_def needsPut_def)

lemma lastBySha_Nil: "lastBySha [] = []"
  by (simp add: lastBySha_def)

lemma lastBySha_snoc: "lastBySha (fs @ [f]) = AList.update (sha f) f (lastBySha fs)"
  by (simp add: lastBySha_def)

lemma reuseLoop_fetch:
  "snd (reuseLoop SF SB fs) = lastBySha [f \<leftarrow> fs. needsPut SF f \<and> sha f \<notin> SB]"
  by (induction fs rule: rev_induct)
     (simp_all add: reuseLoop_Nil reuseLoop_snoc reuseStep_def lastBySha_snoc lastBySha_Nil
        needsPut_def)

lemma lastBySha_distinct: "distinct (map fst (lastBySha fs))"
  by (induction fs rule: rev_induct) (simp_all add: lastBySha_snoc lastBySha_Nil distinct_update)


text \<open>The value kept for a sha is the last file that carries it.\<close>

lemma lastBySha_lookup:
  "map_of (lastBySha fs) s = List.find (\<lambda>f. sha f = s) (rev fs)"
  by (induction fs rule: rev_induct) (auto simp: lastBySha_snoc lastBySha_Nil update_conv')

lemma lastBySha_mem:
  assumes "(s, f) \<in> set (lastBySha fs)"
  shows "f \<in> set fs \<and> sha f = s"
proof -
  from assms have "map_of (lastBySha fs) s = Some f"
    using lastBySha_distinct by (metis map_of_is_SomeI)
  then have "List.find (\<lambda>f. sha f = s) (rev fs) = Some f"
    by (simp add: lastBySha_lookup)
  then show ?thesis
    by (auto simp: find_Some_iff) (metis length_rev nth_mem set_rev)
qed

lemma reusedFiles_mem:
  "f \<in> set (reusedFiles tgt fs) \<longleftrightarrow>
   f \<in> set fs \<and> map_of (fst (sgcIndex tgt)) (path f) \<noteq> Some (sha f) \<and> sha f \<in> snd (sgcIndex tgt)"
  by (auto simp: reusedFiles_def needsPut_def)

lemma blobEntries_mem:
  "(s, f) \<in> set (blobEntries tgt fs) \<Longrightarrow> f \<in> set fs \<and> sha f = s \<and> s \<notin> snd (sgcIndex tgt)"
  by (auto simp: blobEntries_def dest!: lastBySha_mem)

lemma blobEntries_distinct: "distinct (map fst (blobEntries tgt fs))"
  by (simp add: blobEntries_def lastBySha_distinct)


lemma blobEntries_values_distinct: "distinct (map snd (blobEntries tgt fs))"
proof -
  have "map fst (blobEntries tgt fs) = map sha (map snd (blobEntries tgt fs))"
    using blobEntries_mem[of _ _ tgt fs] by (auto simp: map_eq_conv)
  with blobEntries_distinct[of tgt fs] have "distinct (map sha (map snd (blobEntries tgt fs)))"
    by simp
  then show ?thesis unfolding distinct_map[of sha] by blast
qed

lemma find_filter_same:
  "(\<And>x. P x \<Longrightarrow> Q x) \<Longrightarrow> List.find P (filter Q xs) = List.find P xs"
  by (induction xs) auto

lemma blobEntries_lookup:
  assumes "s \<notin> snd (sgcIndex tgt)"
  shows "map_of (blobEntries tgt fs) s = List.find (\<lambda>h. sha h = s) (rev fs)"
proof -
  have "\<And>h. sha h = s \<Longrightarrow> needsPut (fst (sgcIndex tgt)) h \<and> sha h \<notin> snd (sgcIndex tgt)"
    using assms by (auto simp: needsPut_def dest: sgcFiles_sha_in_blobShas)
  then have "List.find (\<lambda>h. sha h = s)
       (filter (\<lambda>h. needsPut (fst (sgcIndex tgt)) h \<and> sha h \<notin> snd (sgcIndex tgt)) (rev fs)) =
     List.find (\<lambda>h. sha h = s) (rev fs)"
    by (rule find_filter_same)
  then show ?thesis
    by (simp add: blobEntries_def lastBySha_lookup rev_filter)
qed

subsection \<open>The blob copies\<close>

lemma blobWorker_run:
  "blobWorker gh SF (s, f) st t =
     (case get_blob gh t s of
        Inl e \<Rightarrow> (Inl e, t @ [GetBlob s])
      | Inr blob \<Rightarrow>
          (case create_blob gh (t @ [GetBlob s]) (fst blob) (snd blob) of
             Inl e \<Rightarrow> (Inl e, t @ [GetBlob s, CreateBlob (fst blob) (snd blob)])
           | Inr n \<Rightarrow> (Inr (pushPut SF f n st), t @ [GetBlob s, CreateBlob (fst blob) (snd blob)])))"
  by (simp add: blobWorker_def io_bind_def io_return_def getBlob_def createBlob_def
      rateLimitedRequest_def split: sum.splits)

lemma batch_success:
  "batchProcess es (blobWorker gh SF) st t = (Inr st2, t') \<Longrightarrow>
   \<exists>news cs. length news = length es \<and> length cs = length es \<and>
     treeUpdates st2 = treeUpdates st @ map (\<lambda>(e, n). putEntry (snd e) n) (zip es news) \<and>
     t' = t @ concat (map (\<lambda>(e, c). [GetBlob (fst e), CreateBlob (fst c) (snd c)]) (zip es cs))"
proof (induction es arbitrary: st t)
  case Nil
  then show ?case by (simp add: io_return_def)
next
  case (Cons e es)
  obtain s f where e: "e = (s, f)" by (cases e)
  from Cons.prems obtain st1 t1 where
    w: "blobWorker gh SF (s, f) st t = (Inr st1, t1)" and
    r: "batchProcess es (blobWorker gh SF) st1 t1 = (Inr st2, t')"
    by (auto simp: e dest: io_bind_Inr)
  from w obtain c n where st1: "st1 = pushPut SF f n st"
    and t1: "t1 = t @ [GetBlob s, CreateBlob (fst c) (snd c)]"
    by (auto simp: blobWorker_run split: sum.splits)
  from Cons.IH[OF r] obtain news cs where ih: "length news = length es" "length cs = length es"
    "treeUpdates st2 = treeUpdates st1 @ map (\<lambda>(e, n). putEntry (snd e) n) (zip es news)"
    "t' = t1 @ concat (map (\<lambda>(e, c). [GetBlob (fst e), CreateBlob (fst c) (snd c)]) (zip es cs))"
    by blast
  show ?case
    by (rule exI[of _ "n # news"], rule exI[of _ "c # cs"]) (simp add: ih st1 t1 e)
qed

lemma copiesOnly_mono:
  "copiesOnly P new \<Longrightarrow> (\<And>s. P s \<Longrightarrow> Q s) \<Longrightarrow> copiesOnly Q new"
  by (induction P new rule: copiesOnly.induct) auto


lemma copiesOnly_noMerge: "copiesOnly P new \<Longrightarrow> filter isMerge new = []"
  by (induction P new rule: copiesOnly.induct) auto

text \<open>Whether the batch succeeds or stops at a failed request, it has issued blob copies
  only, for the keys of its entries.\<close>

lemma batch_log:
  "batchProcess es (blobWorker gh SF) st t = (r, t') \<Longrightarrow>
   \<exists>new. t' = t @ new \<and> copiesOnly (\<lambda>s. s \<in> fst ` set es) new"
proof (induction es arbitrary: st t)
  case Nil
  then show ?case by (simp add: io_return_def)
next
  case (Cons e es)
  obtain s f where e: "e = (s, f)" by (cases e)
  show ?case
  proof (cases "blobWorker gh SF (s, f) st t")
    case (Pair w t1)
    show ?thesis
    proof (cases w)
      case (Inl err)
      with Pair Cons.prems have "t' = t1" by (simp add: e io_bind_def)
      moreover from Pair Inl
      have "t1 = t @ [GetBlob s] \<or> (\<exists>c en. t1 = t @ [GetBlob s, CreateBlob c en])"
        by (auto simp: blobWorker_run split: sum.splits)
      ultimately show ?thesis by (auto simp: e)
    next
      case (Inr st1)
      with Pair Cons.prems have r: "batchProcess es (blobWorker gh SF) st1 t1 = (r, t')"
        by (simp add: e io_bind_def)
      from Pair Inr obtain c en where t1: "t1 = t @ [GetBlob s, CreateBlob c en]"
        by (auto simp: blobWorker_run split: sum.splits)
      from Cons.IH[OF r] obtain new where new: "t' = t1 @ new"
        "copiesOnly (\<lambda>s. s \<in> fst ` set es) new"
        by blast
      have mono: "copiesOnly (\<lambda>x. x \<in> fst ` set (e # es)) new"
        using new(2) by (rule copiesOnly_mono) simp
      show ?thesis
        by (rule exI[of _ "[GetBlob s, CreateBlob c en] @ new"]) (use new t1 mono in \<open>simp add: e\<close>)
    qed
  qed
qed




subsection \<open>The deletion and cleanup loops\<close>

lemma deletionLoop_updates:
  "treeUpdates (foldl (deletionStep sij P) st SF) =
     treeUpdates st @ map deleteEntry
       [p \<leftarrow> map fst SF. isInShopifyFolder p \<and> \<not> shouldExcludeJson sij p \<and> p \<notin> P]"
  by (induction SF rule: rev_induct) (auto simp: deletionStep_def split: prod.splits)

lemma cleanupStep_updates:
  "treeUpdates (cleanupStep st (p, s)) =
     (if \<not> isInShopifyFolder p \<and> p \<notin> u_path ` set (treeUpdates st)
      then treeUpdates st @ [deleteEntry p] else treeUpdates st)"
  by (auto simp: cleanupStep_def Let_def list_ex_iff)

lemma cleanupLoop_exact:
  "distinct (map fst SF) \<Longrightarrow>
   treeUpdates (foldl cleanupStep st SF) =
     treeUpdates st @ map deleteEntry
       [p \<leftarrow> map fst SF. \<not> isInShopifyFolder p \<and> p \<notin> u_path ` set (treeUpdates st)]"
proof (induction SF rule: rev_induct)
  case Nil
  then show ?case by simp
next
  case (snoc e SF)
  obtain p s where e: "e = (p, s)" by (cases e)
  from snoc.prems have d: "distinct (map fst SF)" and p: "p \<notin> fst ` set SF"
    by (auto simp: e)
  have paths: "u_path ` set (treeUpdates (foldl cleanupStep st SF)) =
      u_path ` set (treeUpdates st) \<union>
      {q \<in> fst ` set SF. \<not> isInShopifyFolder q \<and> q \<notin> u_path ` set (treeUpdates st)}"
    by (auto simp: snoc.IH[OF d] image_Un image_image)
  have same: "p \<in> u_path ` set (treeUpdates (foldl cleanupStep st SF)) \<longleftrightarrow>
        p \<in> u_path ` set (treeUpdates st)"
    unfolding paths using p by auto
  have "treeUpdates (foldl cleanupStep st (SF @ [e])) =
        treeUpdates (foldl cleanupStep st SF) @
          (if \<not> isInShopifyFolder p \<and> p \<notin> u_path ` set (treeUpdates st)
           then [deleteEntry p] else [])"
    by (simp add: e cleanupStep_updates same)
  then show ?case
    by (simp add: e snoc.IH[OF d])
qed

section \<open>The finished plan\<close>

lemma map_u_path_zip:
  "length news = length L \<Longrightarrow>
   map (\<lambda>x. u_path (case x of (e, n) \<Rightarrow> putEntry (snd e) n)) (zip L news) =
   map (\<lambda>x. path (snd x)) L"
  by (induction news L rule: list_induct2) auto

text \<open>
  A run of the planning code that returns has pushed four groups of entries, in this
  order: the files whose blob the target already has, the copied blobs, the deletions,
  the cleanup. Its requests are the blob copies.
\<close>

lemma plan_run:
  assumes "planTreeUpdates gh sij fs tgt t = (Inr st, t')"
  shows "\<exists>news cs. length news = length (blobEntries tgt fs) \<and>
     length cs = length (blobEntries tgt fs) \<and>
     treeUpdates st =
       map (\<lambda>f. putEntry f (sha f)) (reusedFiles tgt fs) @
       map (\<lambda>(e, n). putEntry (snd e) n) (zip (blobEntries tgt fs) news) @
       map deleteEntry (deletedPaths sij tgt fs) @
       map deleteEntry (cleanedPaths tgt fs) \<and>
     t' = t @ concat (map (\<lambda>(e, c). [GetBlob (fst e), CreateBlob (fst c) (snd c)])
                        (zip (blobEntries tgt fs) cs))"
proof -
  let ?SF = "fst (sgcIndex tgt)" and ?SB = "snd (sgcIndex tgt)"
  let ?st1 = "fst (reuseLoop ?SF ?SB fs)"
  from assms obtain st2 t2 where
    b: "batchProcess (blobEntries tgt fs) (blobWorker gh ?SF) ?st1 t = (Inr st2, t2)" and
    st: "st = foldl cleanupStep (foldl (deletionStep sij (path ` set fs)) st2 ?SF) ?SF" and
    t': "t' = t2"
    by (auto simp: planTreeUpdates_def Let_def reuseLoop_fetch blobEntries_def io_return_def
        dest!: io_bind_Inr)
  from batch_success[OF b] obtain news cs where n: "length news = length (blobEntries tgt fs)"
    "length cs = length (blobEntries tgt fs)"
    "treeUpdates st2 =
       treeUpdates ?st1 @ map (\<lambda>(e, n). putEntry (snd e) n) (zip (blobEntries tgt fs) news)"
    "t2 = t @ concat (map (\<lambda>(e, c). [GetBlob (fst e), CreateBlob (fst c) (snd c)])
                        (zip (blobEntries tgt fs) cs))"
    by blast
  let ?st3 = "foldl (deletionStep sij (path ` set fs)) st2 ?SF"
  have u3: "treeUpdates ?st3 =
      map (\<lambda>f. putEntry f (sha f)) (reusedFiles tgt fs) @
      map (\<lambda>(e, n). putEntry (snd e) n) (zip (blobEntries tgt fs) news) @
      map deleteEntry (deletedPaths sij tgt fs)"
    by (simp add: deletionLoop_updates n(3) reuseLoop_updates reusedFiles_def deletedPaths_def)
  have m3: "map u_path (treeUpdates ?st3) =
      map path (reusedFiles tgt fs) @ map (\<lambda>x. path (snd x)) (blobEntries tgt fs) @
      deletedPaths sij tgt fs"
    by (simp add: u3 map_u_path_zip[OF n(1)] comp_def)
  have "set (map u_path (treeUpdates ?st3)) =
      path ` set (reusedFiles tgt fs) \<union> path ` snd ` set (blobEntries tgt fs) \<union>
      set (deletedPaths sij tgt fs)"
    unfolding m3 by (auto simp: image_iff)
  then have p3: "u_path ` set (treeUpdates ?st3) =
      path ` set (reusedFiles tgt fs) \<union> path ` snd ` set (blobEntries tgt fs) \<union>
      set (deletedPaths sij tgt fs)"
    by simp
  have del: "\<And>q. q \<in> set (deletedPaths sij tgt fs) \<Longrightarrow> isInShopifyFolder q"
    by (simp add: deletedPaths_def)
  have filt:
    "[p \<leftarrow> map fst ?SF. \<not> isInShopifyFolder p \<and> p \<notin> u_path ` set (treeUpdates ?st3)] =
     cleanedPaths tgt fs"
    unfolding p3 cleanedPaths_def using del by (intro filter_cong[OF refl]) blast
  have "treeUpdates st = treeUpdates ?st3 @ map deleteEntry (cleanedPaths tgt fs)"
    by (simp add: st cleanupLoop_exact[OF sgcFiles_distinct] filt)
  with u3 n(1,2,4) t' show ?thesis
    by (intro exI[of _ news] exI[of _ cs]) simp
qed

lemma plan_paths:
  assumes "planTreeUpdates gh sij fs tgt t = (Inr st, t')"
  shows "map u_path (treeUpdates st) =
     map path (reusedFiles tgt fs) @ map (\<lambda>x. path (snd x)) (blobEntries tgt fs) @
     deletedPaths sij tgt fs @ cleanedPaths tgt fs"
proof -
  from plan_run[OF assms] obtain news cs where n: "length news = length (blobEntries tgt fs)"
    and eq: "treeUpdates st =
       map (\<lambda>f. putEntry f (sha f)) (reusedFiles tgt fs) @
       map (\<lambda>(e, n). putEntry (snd e) n) (zip (blobEntries tgt fs) news) @
       map deleteEntry (deletedPaths sij tgt fs) @
       map deleteEntry (cleanedPaths tgt fs)"
    by blast
  show ?thesis
    unfolding eq by (simp add: map_u_path_zip[OF n] comp_def)
qed

text \<open>Every entry of a finished plan, by the loop that pushed it.\<close>

lemma plan_entries:
  assumes "planTreeUpdates gh sij fs tgt t = (Inr st, t')" and "u \<in> set (treeUpdates st)"
  shows "(\<exists>f \<in> set (reusedFiles tgt fs). u = putEntry f (sha f)) \<or>
         (\<exists>e \<in> set (blobEntries tgt fs). \<exists>n. u = putEntry (snd e) n) \<or>
         (u = deleteEntry (u_path u) \<and> u_path u \<in> set (deletedPaths sij tgt fs)) \<or>
         (u = deleteEntry (u_path u) \<and> u_path u \<in> fst ` set (fst (sgcIndex tgt)) \<and>
            \<not> isInShopifyFolder (u_path u))"
proof -
  let ?A = "map (\<lambda>f. putEntry f (sha f)) (reusedFiles tgt fs)"
  let ?C = "map deleteEntry (deletedPaths sij tgt fs)"
  let ?D = "map deleteEntry (cleanedPaths tgt fs)"
  from plan_run[OF assms(1)] obtain news cs where
    eq: "treeUpdates st =
       ?A @ map (\<lambda>(e, n). putEntry (snd e) n) (zip (blobEntries tgt fs) news) @ ?C @ ?D"
    by blast
  let ?B = "map (\<lambda>(e, n). putEntry (snd e) n) (zip (blobEntries tgt fs) news)"
  from assms(2) have "u \<in> set ?A \<union> set ?B \<union> set ?C \<union> set ?D"
    unfolding eq set_append by blast
  then consider "u \<in> set ?A" | "u \<in> set ?B" | "u \<in> set ?C" | "u \<in> set ?D"
    by blast
  then show ?thesis
  proof cases
    case 1 then show ?thesis by auto
  next
    case 2
    then obtain x where x: "x \<in> set (zip (blobEntries tgt fs) news)"
      "u = (case x of (e, n) \<Rightarrow> putEntry (snd e) n)"
      by auto
    obtain e n where "x = (e, n)" by (cases x)
    with x have "e \<in> set (blobEntries tgt fs)" "u = putEntry (snd e) n"
      by (auto dest: set_zip_leftD)
    then show ?thesis by blast
  next
    case 3 then show ?thesis by auto
  next
    case 4
    then obtain q where "u = deleteEntry q" "q \<in> fst ` set (fst (sgcIndex tgt))"
      "\<not> isInShopifyFolder q"
      by (auto simp: cleanedPaths_def)
    then show ?thesis by simp
  qed
qed

lemma plan_put_path:
  assumes "planTreeUpdates gh sij fs tgt t = (Inr st, t')" and "u \<in> set (treeUpdates st)"
    and "u_sha u \<noteq> None"
  shows "u_path u \<in> path ` set fs"
proof -
  from plan_entries[OF assms(1,2)] assms(3) consider
      f where "f \<in> set (reusedFiles tgt fs)" "u = putEntry f (sha f)"
    | e n where "e \<in> set (blobEntries tgt fs)" "u = putEntry (snd e) n"
    by (metis u_deleteEntry(2))
  then show ?thesis
  proof cases
    case 1 then show ?thesis by (auto simp: reusedFiles_mem)
  next
    case 2
    then have "snd e \<in> set fs" using blobEntries_mem[of "fst e" "snd e" tgt fs] by simp
    with 2 show ?thesis by auto
  qed
qed

lemma plan_has_reused:
  assumes "planTreeUpdates gh sij fs tgt t = (Inr st, t')" and "f \<in> set (reusedFiles tgt fs)"
  shows "putEntry f (sha f) \<in> set (treeUpdates st)"
proof -
  from plan_run[OF assms(1)] obtain news where
    "treeUpdates st =
       map (\<lambda>f. putEntry f (sha f)) (reusedFiles tgt fs) @
       map (\<lambda>(e, n). putEntry (snd e) n) (zip (blobEntries tgt fs) news) @
       map deleteEntry (deletedPaths sij tgt fs) @
       map deleteEntry (cleanedPaths tgt fs)"
    by blast
  then have "set (map (\<lambda>f. putEntry f (sha f)) (reusedFiles tgt fs)) \<subseteq> set (treeUpdates st)"
    by (simp only: set_append) blast
  with assms(2) show ?thesis by auto
qed

lemma plan_has_copied:
  assumes "planTreeUpdates gh sij fs tgt t = (Inr st, t')" and "e \<in> set (blobEntries tgt fs)"
  shows "\<exists>n. putEntry (snd e) n \<in> set (treeUpdates st)"
proof -
  from plan_run[OF assms(1)] obtain news where n: "length news = length (blobEntries tgt fs)"
    and eq: "treeUpdates st =
       map (\<lambda>f. putEntry f (sha f)) (reusedFiles tgt fs) @
       map (\<lambda>(e, n). putEntry (snd e) n) (zip (blobEntries tgt fs) news) @
       map deleteEntry (deletedPaths sij tgt fs) @
       map deleteEntry (cleanedPaths tgt fs)"
    by blast
  from assms(2) n obtain k where "(e, k) \<in> set (zip (blobEntries tgt fs) news)"
    using in_set_impl_in_set_zip1[of "blobEntries tgt fs" news e] by auto
  then have "putEntry (snd e) k \<in>
      set (map (\<lambda>(e, n). putEntry (snd e) n) (zip (blobEntries tgt fs) news))"
    by force
  then have "putEntry (snd e) k \<in> set (treeUpdates st)"
    unfolding eq by (simp only: set_append) blast
  then show ?thesis ..
qed

lemma plan_has_deletion:
  assumes "planTreeUpdates gh sij fs tgt t = (Inr st, t')" and "q \<in> set (deletedPaths sij tgt fs)"
  shows "deleteEntry q \<in> set (treeUpdates st)"
proof -
  from plan_run[OF assms(1)] obtain news where
    "treeUpdates st =
       map (\<lambda>f. putEntry f (sha f)) (reusedFiles tgt fs) @
       map (\<lambda>(e, n). putEntry (snd e) n) (zip (blobEntries tgt fs) news) @
       map deleteEntry (deletedPaths sij tgt fs) @
       map deleteEntry (cleanedPaths tgt fs)"
    by blast
  then have "set (map deleteEntry (deletedPaths sij tgt fs)) \<subseteq> set (treeUpdates st)"
    by (simp only: set_append) blast
  with assms(2) show ?thesis by auto
qed

lemma plan_has_cleanup:
  assumes "planTreeUpdates gh sij fs tgt t = (Inr st, t')"
    and "q \<in> fst ` set (fst (sgcIndex tgt))" and "\<not> isInShopifyFolder q" and "q \<notin> path ` set fs"
  shows "deleteEntry q \<in> set (treeUpdates st)"
proof -
  from plan_run[OF assms(1)] obtain news where
    "treeUpdates st =
       map (\<lambda>f. putEntry f (sha f)) (reusedFiles tgt fs) @
       map (\<lambda>(e, n). putEntry (snd e) n) (zip (blobEntries tgt fs) news) @
       map deleteEntry (deletedPaths sij tgt fs) @
       map deleteEntry (cleanedPaths tgt fs)"
    by blast
  then have sub: "set (map deleteEntry (cleanedPaths tgt fs)) \<subseteq> set (treeUpdates st)"
    by (simp only: set_append) blast
  have "q \<notin> path ` set (reusedFiles tgt fs)"
    using assms(4) by (auto simp: reusedFiles_mem)
  moreover have "q \<notin> path ` snd ` set (blobEntries tgt fs)"
    using assms(4) blobEntries_mem by fastforce
  ultimately have "q \<in> set (cleanedPaths tgt fs)"
    using assms(2,3) by (simp add: cleanedPaths_def)
  with sub show ?thesis by auto
qed

text \<open>The requests of the planning code, whether it returns or throws.\<close>

lemma plan_log:
  assumes "planTreeUpdates gh sij fs tgt t = (r, t')"
  shows "\<exists>new. t' = t @ new \<and> copiesOnly (\<lambda>s. s \<in> fst ` set (blobEntries tgt fs)) new"
proof -
  let ?SF = "fst (sgcIndex tgt)" and ?SB = "snd (sgcIndex tgt)"
  obtain w t2 where b: "batchProcess (blobEntries tgt fs) (blobWorker gh ?SF)
       (fst (reuseLoop ?SF ?SB fs)) t = (w, t2)"
    by (cases "batchProcess (blobEntries tgt fs) (blobWorker gh ?SF) (fst (reuseLoop ?SF ?SB fs)) t")
  with assms have "t' = t2"
    by (cases w) (simp_all add: planTreeUpdates_def Let_def reuseLoop_fetch blobEntries_def
        io_bind_def io_return_def)
  with batch_log[OF b] show ?thesis by simp
qed

subsection \<open>The filter\<close>

lemma shopifyFilesOf_mem:
  "f \<in> set (shopifyFilesOf sij src) \<longleftrightarrow>
   f \<in> set src \<and> item_type f = Blob \<and> isInShopifyFolder (path f) \<and> isNotJson sij (path f)"
  by (auto simp: shopifyFilesOf_def)

lemma shopifyFilesOf_distinct:
  "distinct (map path src) \<Longrightarrow> distinct (map path (shopifyFilesOf sij src))"
  by (simp add: shopifyFilesOf_def distinct_map_filter)

lemma shopifyFilesOf_all:
  "shopifyFilesOf True tree =
     [item \<leftarrow> tree. item_type item = Blob \<and> isInShopifyFolder (path item)]"
  by (induction tree) (simp_all add: shopifyFilesOf_def isNotJson_def)

lemma isNotJson_iff: "isNotJson sij p \<longleftrightarrow> \<not> shouldExcludeJson sij p"
  by (auto simp: isNotJson_def shouldExcludeJson_def)

section \<open>The scenarios, evaluated\<close>

lemmas eval_defs = planTreeUpdates_def sgcIndex_def sgcIndexStep_def reuseLoop_def reuseStep_def
  pushPut_def putEntry_def deleteEntry_def deletionStep_def cleanupStep_def blobWorker_def
  io_bind_def io_return_def getBlob_def createBlob_def rateLimitedRequest_def
  shopifyFilesOf_def isInShopifyFolder_def shopifyFolders_def isNotJson_def shouldExcludeJson_def
  isSettingsSchema_def initialState_def blobItem_def storeRemote_def Let_def suffix_to_prefix

lemmas run_defs = updateSGCOnParentPush_def syncBody_def syncHandler_def io_catch_def
  getRef_def getTree_def createTree_def createCommit_def updateRef_def createMerge_def
  commitMessage_def commitParts_def shouldIncludeJsonOf_def isConflict_def
  rejectingRemote_def brokenRemote_def

lemma spec_files: "shopifyFilesOf False specSource = [blobItem ''assets/a.css'' ''id1'']"
  by (simp add: specSource_def eval_defs)

lemma spec_plan:
  "planTreeUpdates (storeRemote specSource specTarget) False (shopifyFilesOf False specSource)
     specTarget
     [GetRef ''production'', GetRef ''sgc-production'', GetTree ''tip-production'',
      GetTree ''tip-sgc-production''] =
   (Inr \<lparr>treeUpdates = [deleteEntry ''extra/file.txt''], filesUpdated = 0, filesAdded = 0,
          filesDeleted = 0, filesCleanedUp = 1\<rparr>,
    [GetRef ''production'', GetRef ''sgc-production'', GetTree ''tip-production'',
     GetTree ''tip-sgc-production''])"
  unfolding spec_files
  by (simp add: specTarget_def eval_defs)

lemma dup_files: "shopifyFilesOf False dupSource = dupSource"
  by (simp add: dupSource_def eval_defs)

lemma dup_plan:
  "planTreeUpdates (storeRemote dupSource dupTarget) False (shopifyFilesOf False dupSource)
     dupTarget [] =
   (Inr \<lparr>treeUpdates = [putEntry (blobItem ''assets/b.css'' ''X'') ''X''], filesUpdated = 0,
          filesAdded = 1, filesDeleted = 0, filesCleanedUp = 0\<rparr>,
    [GetBlob ''X'', CreateBlob ''content-X'' ''base64''])"
  unfolding dup_files
  by (simp add: dupSource_def dupTarget_def eval_defs)


section \<open>The JSON policy\<close>

text \<open>With the exclusion active, no entry of the plan writes a path that ends in
  \<^verbatim>\<open>.json\<close>, the settings schema apart.\<close>

lemma excluded_json_never_put:
  assumes "planTreeUpdates gh False (shopifyFilesOf False src) tgt t = (Inr st, t')"
    and "u \<in> set (treeUpdates st)" and "u_sha u \<noteq> None" and "suffix ''.json'' (u_path u)"
  shows "u_path u = ''config/settings_schema.json''"
proof -
  from plan_put_path[OF assms(1,2,3)] obtain f where
    "f \<in> set (shopifyFilesOf False src)" "u_path u = path f" by auto
  with assms(4) show ?thesis
    by (auto simp: shopifyFilesOf_mem isNotJson_def isSettingsSchema_def)
qed

text \<open>
  C1. With the exclusion active the plan has no Put for an in-scope path ending in
  \<^verbatim>\<open>.json\<close> other than \<^verbatim>\<open>config/settings_schema.json\<close> (lemma \<open>excluded_json_never_put\<close>), and
  the settings schema is to be Put whenever the target lacks it. The code misses the
  second part when a later file of the parent has the same content: the parent holds
  \<^verbatim>\<open>config/settings_schema.json\<close> and \<^verbatim>\<open>snippets/schema.liquid\<close> with one object id, the
  target holds neither path and no blob of that id, the sync runs for production without
  JSON files, and the tree it creates has an entry for \<^verbatim>\<open>snippets/schema.liquid\<close> only.
\<close>

theorem settings_schema_lost_to_later_copy:
  "updateSGCOnParentPush (storeRemote schemaSource dupTarget) False Production [] =
     (Inr Synced,
      [GetRef ''production'', GetRef ''sgc-production'', GetTree ''tip-production'',
       GetTree ''tip-sgc-production'', GetBlob ''X'', CreateBlob ''content-X'' ''base64'',
       CreateTree ''tip-sgc-production'' [putEntry (blobItem ''snippets/schema.liquid'' ''X'') ''X''],
       CreateCommit ''Sync Shopify files from production (1 added)'' ''new-tree''
         [''tip-sgc-production''],
       UpdateRef ''sgc-production'' ''new-commit'' False])"
  by (simp add: schemaSource_def dupTarget_def run_defs eval_defs)

text \<open>
  C4. A path of the target inside the Shopify folders and absent from the filtered parent
  files gets a deletion exactly when it passes the JSON filter itself; a JSON file the
  policy excludes gets no entry at all, so the target keeps it as it is.
\<close>

theorem excluded_target_json_is_kept:
  assumes run: "planTreeUpdates gh sij (shopifyFilesOf sij src) tgt t = (Inr st, t')"
    and it: "it \<in> set tgt" "item_type it = Blob"
    and inside: "isInShopifyFolder (path it)"
    and absent: "path it \<notin> path ` set (shopifyFilesOf sij src)"
  shows "((\<exists>u \<in> set (treeUpdates st). u_path u = path it \<and> u_sha u = None) \<longleftrightarrow>
            isNotJson sij (path it)) \<and>
         (\<not> isNotJson sij (path it) \<longrightarrow> (\<forall>u \<in> set (treeUpdates st). u_path u \<noteq> path it))"
proof -
  have key: "path it \<in> set (map fst (fst (sgcIndex tgt)))"
    by (rule sgcFiles_has[OF it])
  have entries: "isNotJson sij (path it)"
    if "u \<in> set (treeUpdates st)" "u_path u = path it" for u
  proof -
    from plan_entries[OF run that(1)] consider
        "u_sha u \<noteq> None" | "u_path u \<in> set (deletedPaths sij tgt (shopifyFilesOf sij src))"
      | "\<not> isInShopifyFolder (u_path u)"
      by (metis option.distinct(1) u_putEntry(2))
    then show ?thesis
    proof cases
      case 1
      from plan_put_path[OF run that(1) 1] absent that(2) show ?thesis by simp
    next
      case 2
      then show ?thesis by (simp add: deletedPaths_def that(2) isNotJson_iff)
    next
      case 3
      with inside that(2) show ?thesis by simp
    qed
  qed
  have "\<exists>u \<in> set (treeUpdates st). u_path u = path it \<and> u_sha u = None"
    if "isNotJson sij (path it)"
  proof -
    from that key inside absent
    have "path it \<in> set (deletedPaths sij tgt (shopifyFilesOf sij src))"
      by (simp add: deletedPaths_def isNotJson_iff)
    from plan_has_deletion[OF run this] show ?thesis
      by (intro bexI[of _ "deleteEntry (path it)"]) simp_all
  qed
  with entries show ?thesis by blast
qed

theorem excluded_target_json_is_kept_witness:
  "blobItem ''config/settings_data.json'' ''id_old'' \<in> set specTarget \<and>
   isInShopifyFolder ''config/settings_data.json'' \<and>
   ''config/settings_data.json'' \<notin> path ` set (shopifyFilesOf False specSource) \<and>
   \<not> isNotJson False ''config/settings_data.json'' \<and>
   ''config/settings_data.json'' \<notin> u_path ` set [deleteEntry ''extra/file.txt'']"
proof -
  let ?it = "blobItem ''config/settings_data.json'' ''id_old''"
  have h1: "?it \<in> set specTarget" by (simp add: specTarget_def)
  have h2: "item_type ?it = Blob" by (simp add: blobItem_def)
  have h3: "isInShopifyFolder (path ?it)"
    by (simp add: blobItem_def isInShopifyFolder_def shopifyFolders_def)
  have h4: "path ?it \<notin> path ` set (shopifyFilesOf False specSource)"
    by (simp add: spec_files blobItem_def)
  have h5: "\<not> isNotJson False (path ?it)"
    by (simp add: blobItem_def isNotJson_def isSettingsSchema_def suffix_to_prefix)
  from excluded_target_json_is_kept[OF spec_plan h1 h2 h3 h4] h5
  have "\<forall>u \<in> set [deleteEntry ''extra/file.txt'']. u_path u \<noteq> path ?it"
    by simp
  with h1 h3 h4 h5 show ?thesis by (simp add: blobItem_def)
qed

section \<open>One entry for a path\<close>

lemma distinct_four:
  assumes "distinct A" "distinct B" "distinct C" "distinct D"
    and "set A \<inter> set B = {}" "set A \<subseteq> S" "set B \<subseteq> S" "set C \<inter> S = {}"
    and "set C \<inter> set D = {}" "set A \<inter> set D = {}" "set B \<inter> set D = {}"
  shows "distinct (A @ B @ C @ D)"
  using assms by auto

lemma plan_distinct:
  assumes run: "planTreeUpdates gh sij fs tgt t = (Inr st, t')"
    and d: "distinct (map path fs)"
  shows "distinct (map u_path (treeUpdates st))"
proof -
  let ?R = "reusedFiles tgt fs" and ?F = "blobEntries tgt fs" and ?Dl = "deletedPaths sij tgt fs"
  let ?Cl = "cleanedPaths tgt fs"
  have inj: "inj_on path (set fs)" using d by (simp add: distinct_map)
  have R: "distinct (map path ?R)"
    using d by (simp add: reusedFiles_def distinct_map_filter)
  have Fsub: "set (map snd ?F) \<subseteq> set fs"
    using blobEntries_mem[of _ _ tgt fs] by auto
  have "distinct (map path (map snd ?F))"
    using blobEntries_values_distinct[of tgt fs] inj Fsub
    by (simp only: distinct_map) (blast intro: inj_on_subset)
  then have F: "distinct (map (\<lambda>x. path (snd x)) ?F)" by (simp add: comp_def)
  have RF: "set (map path ?R) \<inter> set (map (\<lambda>x. path (snd x)) ?F) = {}"
  proof (rule ccontr)
    assume "\<not> ?thesis"
    then obtain g e where g: "g \<in> set ?R" and e: "e \<in> set ?F" and eq: "path g = path (snd e)"
      by auto
    from e have m: "snd e \<in> set fs" "sha (snd e) \<notin> snd (sgcIndex tgt)"
      using blobEntries_mem[of "fst e" "snd e" tgt fs] by auto
    from g have "g \<in> set fs" "sha g \<in> snd (sgcIndex tgt)" by (auto simp: reusedFiles_mem)
    with inj m eq show False by (auto dest: inj_onD)
  qed
  have Dl: "distinct ?Dl"
    using sgcFiles_distinct[of tgt] by (simp add: deletedPaths_def)
  have Cl: "distinct ?Cl"
    using sgcFiles_distinct[of tgt] by (simp add: cleanedPaths_def)
  have Dlfs: "set ?Dl \<inter> path ` set fs = {}" by (auto simp: deletedPaths_def)
  have Rfs: "set (map path ?R) \<subseteq> path ` set fs" by (auto simp: reusedFiles_mem)
  have Ffs: "set (map (\<lambda>x. path (snd x)) ?F) \<subseteq> path ` set fs" using Fsub by auto
  have DlCl: "set ?Dl \<inter> set ?Cl = {}" by (auto simp: deletedPaths_def cleanedPaths_def)
  have ClR: "set (map path ?R) \<inter> set ?Cl = {}" by (auto simp: cleanedPaths_def)
  have ClF: "set (map (\<lambda>x. path (snd x)) ?F) \<inter> set ?Cl = {}" by (auto simp: cleanedPaths_def)
  show ?thesis
    unfolding plan_paths[OF run]
    by (rule distinct_four[OF R F Dl Cl RF Rfs Ffs Dlfs DlCl ClR ClF])
qed

text \<open>
  C5. Whatever the parent tree (a snapshot: its paths are unique), the target tree and the
  filter, the plan has at most one entry for a path; in particular no path has both a Put
  and a Delete.
\<close>

theorem plan_has_one_entry_per_path:
  assumes run: "planTreeUpdates gh sij (shopifyFilesOf sij src) tgt t = (Inr st, t')"
    and d: "distinct (map path src)"
  shows "distinct (map u_path (treeUpdates st)) \<and>
         (\<forall>u \<in> set (treeUpdates st). \<forall>v \<in> set (treeUpdates st).
            u_sha u \<noteq> None \<and> u_sha v = None \<longrightarrow> u_path u \<noteq> u_path v)"
proof -
  have dist: "distinct (map u_path (treeUpdates st))"
    by (rule plan_distinct[OF run shopifyFilesOf_distinct[OF d]])
  then have "inj_on u_path (set (treeUpdates st))"
    by (simp add: distinct_map)
  then have "\<forall>u \<in> set (treeUpdates st). \<forall>v \<in> set (treeUpdates st).
            u_sha u \<noteq> None \<and> u_sha v = None \<longrightarrow> u_path u \<noteq> u_path v"
    by (metis inj_onD)
  with dist show ?thesis by blast
qed

theorem plan_has_one_entry_per_path_witness:
  "distinct (map path dupSource) \<and>
   distinct (map u_path [putEntry (blobItem ''assets/b.css'' ''X'') ''X''])"
proof -
  have d: "distinct (map path dupSource)"
    by (simp add: dupSource_def blobItem_def)
  from plan_has_one_entry_per_path[OF dup_plan d] d show ?thesis by simp
qed

section \<open>Object reuse and blob copies\<close>







section \<open>Files that are current and files that need an entry\<close>

text \<open>A file of the parent that the target holds with the same object id has no entry in
  the plan.\<close>

lemma up_to_date_omitted:
  assumes run: "planTreeUpdates gh sij (shopifyFilesOf sij src) tgt t = (Inr st, t')"
    and d: "distinct (map path src)"
    and f: "f \<in> set (shopifyFilesOf sij src)"
    and same: "map_of (fst (sgcIndex tgt)) (path f) = Some (sha f)"
    and u: "u \<in> set (treeUpdates st)"
  shows "u_path u \<noteq> path f"
proof
  assume eq: "u_path u = path f"
  let ?fs = "shopifyFilesOf sij src"
  have inj: "inj_on path (set ?fs)"
    using shopifyFilesOf_distinct[OF d] by (simp add: distinct_map)
  from plan_entries[OF run u] show False
  proof (elim disjE bexE exE conjE)
    fix g assume g: "g \<in> set (reusedFiles tgt ?fs)" "u = putEntry g (sha g)"
    then have "g \<in> set ?fs" "path g = path f" using eq by (auto simp: reusedFiles_mem)
    with inj f have "g = f" by (auto dest: inj_onD)
    with g(1) same show False by (simp add: reusedFiles_mem)
  next
    fix e n assume e: "e \<in> set (blobEntries tgt ?fs)" "u = putEntry (snd e) n"
    then have m: "snd e \<in> set ?fs" "sha (snd e) \<notin> snd (sgcIndex tgt)"
      using blobEntries_mem[of "fst e" "snd e" tgt ?fs] by auto
    from e eq have "path (snd e) = path f" by simp
    with inj f m(1) have "snd e = f" by (auto dest: inj_onD)
    with m(2) sgcFiles_sha_in_blobShas[OF same] show False by simp
  next
    assume "u_path u \<in> set (deletedPaths sij tgt ?fs)"
    with eq f show False by (auto simp: deletedPaths_def)
  next
    assume "\<not> isInShopifyFolder (u_path u)"
    with eq f show False by (simp add: shopifyFilesOf_mem)
  qed
qed

text \<open>A file of the parent whose path the target lacks, or holds with another object id,
  gets its Put when the target already has a blob of its object id, or when it is the last
  file of the parent with that object id.\<close>

lemma needed_file_gets_put:
  assumes run: "planTreeUpdates gh sij (shopifyFilesOf sij src) tgt t = (Inr st, t')"
    and f: "f \<in> set (shopifyFilesOf sij src)"
    and need: "map_of (fst (sgcIndex tgt)) (path f) \<noteq> Some (sha f)"
    and last: "sha f \<in> snd (sgcIndex tgt) \<or>
               List.find (\<lambda>h. sha h = sha f) (rev (shopifyFilesOf sij src)) = Some f"
  shows "\<exists>n. putEntry f n \<in> set (treeUpdates st)"
proof (cases "sha f \<in> snd (sgcIndex tgt)")
  case True
  with f need have "f \<in> set (reusedFiles tgt (shopifyFilesOf sij src))"
    by (simp add: reusedFiles_mem)
  from plan_has_reused[OF run this] show ?thesis ..
next
  case False
  with last have "map_of (blobEntries tgt (shopifyFilesOf sij src)) (sha f) = Some f"
    by (simp add: blobEntries_lookup)
  then have "(sha f, f) \<in> set (blobEntries tgt (shopifyFilesOf sij src))"
    by (rule map_of_SomeD)
  from plan_has_copied[OF run this] show ?thesis by simp
qed

section \<open>The whole run of \<^verbatim>\<open>updateSGCOnParentPush\<close>\<close>

text \<open>When the four reads succeed and the parent has Shopify files, the rest of the
  \<^verbatim>\<open>try\<close> block is the plan, then its submission.\<close>

lemma syncBody_plan:
  assumes "get_ref gh [] (parentName par) = Inr parentSha"
    and "get_ref gh [GetRef (parentName par)] (''sgc-'' @ parentName par) = Inr sgcSha"
    and "get_tree gh [GetRef (parentName par), GetRef (''sgc-'' @ parentName par)] parentSha =
           Inr src"
    and "shopifyFilesOf (shouldIncludeJsonOf inc par) src \<noteq> []"
    and "get_tree gh
           [GetRef (parentName par), GetRef (''sgc-'' @ parentName par), GetTree parentSha]
           sgcSha = Inr tgt"
    and "planTreeUpdates gh (shouldIncludeJsonOf inc par)
           (shopifyFilesOf (shouldIncludeJsonOf inc par) src) tgt
           [GetRef (parentName par), GetRef (''sgc-'' @ parentName par), GetTree parentSha,
            GetTree sgcSha] = (Inr st, t')"
  shows "syncBody gh inc par [] =
     (if treeUpdates st = [] then (Inr NoUpdates, t')
      else io_bind (createTree gh sgcSha (treeUpdates st)) (\<lambda>newTree.
           io_bind (createCommit gh (commitMessage (parentName par) st) newTree [sgcSha])
             (\<lambda>newCommit.
           io_bind (updateRef gh (''sgc-'' @ parentName par) newCommit False) (\<lambda>_.
           io_return Synced))) t')"
  using assms
  by (simp add: syncBody_def Let_def io_bind_def io_return_def getRef_def getTree_def
      rateLimitedRequest_def)

lemma handler_run: "\<exists>out new. syncHandler gh par e t = (Inr out, t @ new)"
  by (simp add: syncHandler_def io_catch_def io_bind_def io_return_def createMerge_def
      rateLimitedRequest_def split: sum.splits)

lemma submit_run:
  "\<exists>r new.
     io_bind (createTree gh sgcSha ups) (\<lambda>newTree.
       io_bind (createCommit gh msg newTree [sgcSha]) (\<lambda>newCommit.
       io_bind (updateRef gh branch newCommit False) (\<lambda>_. io_return Synced))) t' =
     (r, t' @ CreateTree sgcSha ups # new)"
  by (simp add: io_bind_def io_return_def createTree_def createCommit_def updateRef_def
      rateLimitedRequest_def split: sum.splits)

text \<open>The function never throws: every path of its \<^verbatim>\<open>catch\<close> block returns.\<close>

lemma never_throws: "\<exists>out t'. updateSGCOnParentPush gh inc par t = (Inr out, t')"
  by (cases "syncBody gh inc par t")
     (auto simp: updateSGCOnParentPush_def io_catch_def syncHandler_def io_bind_def
        io_return_def createMerge_def rateLimitedRequest_def split: sum.splits)

text \<open>An empty plan ends the run: no tree, no commit, no ref update.\<close>

lemma empty_plan_zero_op:
  assumes "get_ref gh [] (parentName par) = Inr parentSha"
    and "get_ref gh [GetRef (parentName par)] (''sgc-'' @ parentName par) = Inr sgcSha"
    and "get_tree gh [GetRef (parentName par), GetRef (''sgc-'' @ parentName par)] parentSha =
           Inr src"
    and "shopifyFilesOf (shouldIncludeJsonOf inc par) src \<noteq> []"
    and "get_tree gh
           [GetRef (parentName par), GetRef (''sgc-'' @ parentName par), GetTree parentSha]
           sgcSha = Inr tgt"
    and "planTreeUpdates gh (shouldIncludeJsonOf inc par)
           (shopifyFilesOf (shouldIncludeJsonOf inc par) src) tgt
           [GetRef (parentName par), GetRef (''sgc-'' @ parentName par), GetTree parentSha,
            GetTree sgcSha] = (Inr st, t')"
    and "treeUpdates st = []"
  shows "updateSGCOnParentPush gh inc par [] = (Inr NoUpdates, t')"
  by (simp add: updateSGCOnParentPush_def io_catch_def syncBody_plan[OF assms(1-6)] assms(7))

section \<open>Cleanup of the paths outside the Shopify folders\<close>

lemma cleanup_covers:
  assumes "planTreeUpdates gh sij (shopifyFilesOf sij src) tgt t = (Inr st, t')"
    and "it \<in> set tgt" and "item_type it = Blob" and "\<not> isInShopifyFolder (path it)"
  shows "deleteEntry (path it) \<in> set (treeUpdates st)"
proof -
  have "path it \<in> fst ` set (fst (sgcIndex tgt))"
    using sgcFiles_has[OF assms(2,3)] by simp
  moreover have "path it \<notin> path ` set (shopifyFilesOf sij src)"
    using assms(4) by (auto simp: shopifyFilesOf_mem)
  ultimately show ?thesis
    using plan_has_cleanup[OF assms(1)] assms(4) by blast
qed

text \<open>
  C2, as stated, fails: the cleanup is not independent of the parent tree. The parent has
  no Shopify file, the target holds \<^verbatim>\<open>extra/file.txt\<close> outside the eight folders, and the
  run returns after reading the parent tree (lines 391 to 394) without creating any tree.
\<close>

theorem no_cleanup_without_shopify_files:
  "blobItem ''extra/file.txt'' ''id4'' \<in> set specTarget \<and>
   \<not> isInShopifyFolder ''extra/file.txt'' \<and>
   updateSGCOnParentPush (storeRemote emptySource specTarget) False Production [] =
     (Inr NoShopifyFiles,
      [GetRef ''production'', GetRef ''sgc-production'', GetTree ''tip-production''])"
  by (simp add: emptySource_def specTarget_def run_defs eval_defs)

text \<open>
  C2, amended. When the filtered parent tree is not empty and the blob copies succeed, the
  plan has a Delete for every file of the target outside the eight Shopify folders,
  whatever the JSON policy and whichever files the filtered parent tree holds, and the run
  submits that plan in a tree creation.
\<close>

theorem cleanup_deletes_paths_outside_folders:
  assumes "get_ref gh [] (parentName par) = Inr parentSha"
    and "get_ref gh [GetRef (parentName par)] (''sgc-'' @ parentName par) = Inr sgcSha"
    and "get_tree gh [GetRef (parentName par), GetRef (''sgc-'' @ parentName par)] parentSha =
           Inr src"
    and "shopifyFilesOf (shouldIncludeJsonOf inc par) src \<noteq> []"
    and "get_tree gh
           [GetRef (parentName par), GetRef (''sgc-'' @ parentName par), GetTree parentSha]
           sgcSha = Inr tgt"
    and plan: "planTreeUpdates gh (shouldIncludeJsonOf inc par)
           (shopifyFilesOf (shouldIncludeJsonOf inc par) src) tgt
           [GetRef (parentName par), GetRef (''sgc-'' @ parentName par), GetTree parentSha,
            GetTree sgcSha] = (Inr st, t')"
    and it: "it \<in> set tgt" "item_type it = Blob" "\<not> isInShopifyFolder (path it)"
  shows "deleteEntry (path it) \<in> set (treeUpdates st) \<and>
         (\<exists>out rest. updateSGCOnParentPush gh inc par [] =
            (Inr out, t' @ CreateTree sgcSha (treeUpdates st) # rest))"
proof -
  have del: "deleteEntry (path it) \<in> set (treeUpdates st)"
    by (rule cleanup_covers[OF plan it])
  then have ne: "treeUpdates st \<noteq> []" by auto
  from submit_run[of gh sgcSha "treeUpdates st" "commitMessage (parentName par) st"
      "''sgc-'' @ parentName par" t']
  obtain r new where
    body: "syncBody gh inc par [] = (r, t' @ CreateTree sgcSha (treeUpdates st) # new)"
    unfolding syncBody_plan[OF assms(1-6)] using ne by auto
  have "\<exists>out rest. updateSGCOnParentPush gh inc par [] =
            (Inr out, t' @ CreateTree sgcSha (treeUpdates st) # rest)"
  proof (cases r)
    case (Inl e)
    from handler_run[of gh par e "t' @ CreateTree sgcSha (treeUpdates st) # new"]
    obtain out more where
      "syncHandler gh par e (t' @ CreateTree sgcSha (treeUpdates st) # new) =
         (Inr out, (t' @ CreateTree sgcSha (treeUpdates st) # new) @ more)"
      by blast
    with body Inl show ?thesis
      by (simp add: updateSGCOnParentPush_def io_catch_def)
  next
    case (Inr out)
    with body show ?thesis
      by (simp add: updateSGCOnParentPush_def io_catch_def)
  qed
  with del show ?thesis by blast
qed

theorem cleanup_deletes_paths_outside_folders_witness:
  "shopifyFilesOf (shouldIncludeJsonOf False Production) specSource \<noteq> [] \<and>
   blobItem ''extra/file.txt'' ''id4'' \<in> set specTarget \<and>
   \<not> isInShopifyFolder ''extra/file.txt'' \<and>
   deleteEntry ''extra/file.txt'' \<in> set [deleteEntry ''extra/file.txt''] \<and>
   (\<exists>out rest. updateSGCOnParentPush (storeRemote specSource specTarget) False Production [] =
      (Inr out,
       [GetRef ''production'', GetRef ''sgc-production'', GetTree ''tip-production'',
        GetTree ''tip-sgc-production''] @
       CreateTree ''tip-sgc-production'' [deleteEntry ''extra/file.txt''] # rest))"
proof -
  let ?gh = "storeRemote specSource specTarget"
  let ?it = "blobItem ''extra/file.txt'' ''id4''"
  have sij: "shouldIncludeJsonOf False Production = False"
    by (simp add: shouldIncludeJsonOf_def)
  have r1: "get_ref ?gh [] (parentName Production) = Inr ''tip-production''"
    by (simp add: storeRemote_def)
  have r2: "get_ref ?gh [GetRef (parentName Production)] (''sgc-'' @ parentName Production) =
      Inr ''tip-sgc-production''"
    by (simp add: storeRemote_def)
  have r3: "get_tree ?gh [GetRef (parentName Production), GetRef (''sgc-'' @ parentName Production)]
      ''tip-production'' = Inr specSource"
    by (simp add: storeRemote_def)
  have ne: "shopifyFilesOf (shouldIncludeJsonOf False Production) specSource \<noteq> []"
    by (simp add: sij spec_files)
  have r4: "get_tree ?gh
      [GetRef (parentName Production), GetRef (''sgc-'' @ parentName Production),
       GetTree ''tip-production''] ''tip-sgc-production'' = Inr specTarget"
    by (simp add: storeRemote_def)
  have plan: "planTreeUpdates ?gh (shouldIncludeJsonOf False Production)
      (shopifyFilesOf (shouldIncludeJsonOf False Production) specSource) specTarget
      [GetRef (parentName Production), GetRef (''sgc-'' @ parentName Production),
       GetTree ''tip-production'', GetTree ''tip-sgc-production''] =
      (Inr \<lparr>treeUpdates = [deleteEntry ''extra/file.txt''], filesUpdated = 0, filesAdded = 0,
          filesDeleted = 0, filesCleanedUp = 1\<rparr>,
       [GetRef ''production'', GetRef ''sgc-production'', GetTree ''tip-production'',
        GetTree ''tip-sgc-production''])"
    using spec_plan by (simp add: sij)
  have i1: "?it \<in> set specTarget" by (simp add: specTarget_def)
  have i2: "item_type ?it = Blob" by (simp add: blobItem_def)
  have i3: "\<not> isInShopifyFolder (path ?it)"
    by (simp add: blobItem_def isInShopifyFolder_def shopifyFolders_def)
  from cleanup_deletes_paths_outside_folders[OF r1 r2 r3 ne r4 plan i1 i2 i3] ne i1 i3
  show ?thesis by (simp add: blobItem_def)
qed

section \<open>The fallback merge\<close>

lemma noMerge_return: "noMerge (io_return v)"
  by (simp add: noMerge_def io_return_def)

lemma noMerge_request: "\<not> isMerge req \<Longrightarrow> noMerge (rateLimitedRequest call req)"
  by (simp add: noMerge_def rateLimitedRequest_def)

lemma noMerge_bind:
  assumes "noMerge m" and "\<And>v. noMerge (f v)"
  shows "noMerge (io_bind m f)"
  unfolding noMerge_def
proof
  fix t
  from assms(1) obtain n1 where n1: "snd (m t) = t @ n1" "filter isMerge n1 = []"
    unfolding noMerge_def by blast
  show "\<exists>new. snd (io_bind m f t) = t @ new \<and> filter isMerge new = []"
  proof (cases "fst (m t)")
    case (Inl e)
    with n1 show ?thesis
      by (cases "m t") (auto simp: io_bind_def)
  next
    case (Inr v)
    from assms(2)[of v] obtain n2 where n2: "snd (f v (t @ n1)) = (t @ n1) @ n2"
      "filter isMerge n2 = []"
      unfolding noMerge_def by blast
    with Inr n1 show ?thesis
      by (cases "m t") (auto simp: io_bind_def intro!: exI[of _ "n1 @ n2"])
  qed
qed

lemma noMerge_plan: "noMerge (planTreeUpdates gh sij fs tgt)"
  unfolding noMerge_def
proof
  fix t
  obtain r t' where rt: "planTreeUpdates gh sij fs tgt t = (r, t')"
    by (cases "planTreeUpdates gh sij fs tgt t")
  from plan_log[OF rt] copiesOnly_noMerge rt
  show "\<exists>new. snd (planTreeUpdates gh sij fs tgt t) = t @ new \<and> filter isMerge new = []"
    by auto
qed

text \<open>The \<^verbatim>\<open>try\<close> block issues no merge.\<close>

lemma noMerge_syncBody: "noMerge (syncBody gh inc par)"
  unfolding syncBody_def Let_def getRef_def getTree_def createTree_def createCommit_def
    updateRef_def
  by (intro noMerge_bind noMerge_request noMerge_plan noMerge_return
        if_split[where P=noMerge, THEN iffD2] conjI impI) simp_all

text \<open>
  C7, as stated, fails in its last part: the error of a failed fallback merge is not
  surfaced. The remote rejects the tree creation with status 422 and refuses the merge;
  the function logs both errors and returns.
\<close>

theorem failed_fallback_merge_is_swallowed:
  "updateSGCOnParentPush (brokenRemote specSource specTarget) False Production [] =
     (Inr FallbackMergeFailed,
      [GetRef ''production'', GetRef ''sgc-production'', GetTree ''tip-production'',
       GetTree ''tip-sgc-production'',
       CreateTree ''tip-sgc-production'' [deleteEntry ''extra/file.txt''],
       Merge ''sgc-production'' ''production''
         ''Merge production into sgc-production (fallback from Shopify sync)''])"
  by (simp add: specSource_def specTarget_def run_defs eval_defs)

text \<open>
  C7, amended. When the \<^verbatim>\<open>try\<close> block fails with an error of status 422 or with a message
  containing \<^verbatim>\<open>conflict\<close>, the sync issues exactly one merge, of the parent branch into the
  sgc branch, as its last request, and returns normally whether the merge succeeds or
  fails: a failed merge is logged and not thrown to the caller.
\<close>

theorem conflict_falls_back_to_one_merge:
  assumes body: "syncBody gh inc par t = (Inl e, t')" and c: "isConflict e"
  shows "updateSGCOnParentPush gh inc par t =
           (Inr (case merges gh t' (''sgc-'' @ parentName par) (parentName par)
                        (''Merge '' @ parentName par @ '' into sgc-'' @ parentName par @
                          '' (fallback from Shopify sync)'') of
                   Inl mergeError \<Rightarrow> FallbackMergeFailed | Inr ok \<Rightarrow> FallbackMerged),
            t' @ [Merge (''sgc-'' @ parentName par) (parentName par)
                   (''Merge '' @ parentName par @ '' into sgc-'' @ parentName par @
                          '' (fallback from Shopify sync)'')]) \<and>
         (\<exists>new. t' = t @ new \<and> filter isMerge new = [])"
proof -
  from noMerge_syncBody[of gh inc par] body have "\<exists>new. t' = t @ new \<and> filter isMerge new = []"
    unfolding noMerge_def by (metis snd_conv)
  moreover have "updateSGCOnParentPush gh inc par t =
           (Inr (case merges gh t' (''sgc-'' @ parentName par) (parentName par)
                        (''Merge '' @ parentName par @ '' into sgc-'' @ parentName par @
                          '' (fallback from Shopify sync)'') of
                   Inl mergeError \<Rightarrow> FallbackMergeFailed | Inr ok \<Rightarrow> FallbackMerged),
            t' @ [Merge (''sgc-'' @ parentName par) (parentName par)
                   (''Merge '' @ parentName par @ '' into sgc-'' @ parentName par @
                          '' (fallback from Shopify sync)'')])"
    using body c
    by (simp add: updateSGCOnParentPush_def io_catch_def syncHandler_def io_bind_def
        io_return_def createMerge_def rateLimitedRequest_def split: sum.splits)
  ultimately show ?thesis by blast
qed

theorem conflict_falls_back_to_one_merge_witness:
  "syncBody (rejectingRemote specSource specTarget) False Production [] =
     (Inl \<lparr>status = Some 422, message = ''Unprocessable Entity''\<rparr>,
      [GetRef ''production'', GetRef ''sgc-production'', GetTree ''tip-production'',
       GetTree ''tip-sgc-production'',
       CreateTree ''tip-sgc-production'' [deleteEntry ''extra/file.txt'']]) \<and>
   isConflict \<lparr>status = Some 422, message = ''Unprocessable Entity''\<rparr> \<and>
   updateSGCOnParentPush (rejectingRemote specSource specTarget) False Production [] =
     (Inr FallbackMerged,
      [GetRef ''production'', GetRef ''sgc-production'', GetTree ''tip-production'',
       GetTree ''tip-sgc-production'',
       CreateTree ''tip-sgc-production'' [deleteEntry ''extra/file.txt''],
       Merge ''sgc-production'' ''production''
         ''Merge production into sgc-production (fallback from Shopify sync)''])"
proof -
  have body: "syncBody (rejectingRemote specSource specTarget) False Production [] =
     (Inl \<lparr>status = Some 422, message = ''Unprocessable Entity''\<rparr>,
      [GetRef ''production'', GetRef ''sgc-production'', GetTree ''tip-production'',
       GetTree ''tip-sgc-production'',
       CreateTree ''tip-sgc-production'' [deleteEntry ''extra/file.txt'']])"
    by (simp add: specSource_def specTarget_def run_defs eval_defs)
  have c: "isConflict \<lparr>status = Some 422, message = ''Unprocessable Entity''\<rparr>"
    by (simp add: isConflict_def)
  from conflict_falls_back_to_one_merge[OF body c] body c show ?thesis
    by (simp add: rejectingRemote_def storeRemote_def)
qed

section \<open>The parent decides the JSON policy\<close>

lemma shopifyFilesOf_explicit:
  "shopifyFilesOf sij tree =
     [item \<leftarrow> tree. item_type item = Blob \<and> isInShopifyFolder (path item) \<and>
        (sij \<or> \<not> suffix ''.json'' (path item) \<or> path item = ''config/settings_schema.json'')]"
  by (induction tree) (simp_all add: shopifyFilesOf_def isNotJson_def isSettingsSchema_def)

text \<open>Once the plan is finished the run either stops, when the plan is empty, or submits
  it in a tree creation.\<close>

lemma run_submits_plan:
  assumes "get_ref gh [] (parentName par) = Inr parentSha"
    and "get_ref gh [GetRef (parentName par)] (''sgc-'' @ parentName par) = Inr sgcSha"
    and "get_tree gh [GetRef (parentName par), GetRef (''sgc-'' @ parentName par)] parentSha =
           Inr src"
    and "shopifyFilesOf (shouldIncludeJsonOf inc par) src \<noteq> []"
    and "get_tree gh
           [GetRef (parentName par), GetRef (''sgc-'' @ parentName par), GetTree parentSha]
           sgcSha = Inr tgt"
    and "planTreeUpdates gh (shouldIncludeJsonOf inc par)
           (shopifyFilesOf (shouldIncludeJsonOf inc par) src) tgt
           [GetRef (parentName par), GetRef (''sgc-'' @ parentName par), GetTree parentSha,
            GetTree sgcSha] = (Inr st, t')"
  shows "if treeUpdates st = [] then updateSGCOnParentPush gh inc par [] = (Inr NoUpdates, t')
         else \<exists>out rest. updateSGCOnParentPush gh inc par [] =
                (Inr out, t' @ CreateTree sgcSha (treeUpdates st) # rest)"
proof (cases "treeUpdates st = []")
  case True
  with empty_plan_zero_op[OF assms] show ?thesis by simp
next
  case False
  from submit_run[of gh sgcSha "treeUpdates st" "commitMessage (parentName par) st"
      "''sgc-'' @ parentName par" t']
  obtain r new where
    body: "syncBody gh inc par [] = (r, t' @ CreateTree sgcSha (treeUpdates st) # new)"
    unfolding syncBody_plan[OF assms] using False by auto
  have "\<exists>out rest. updateSGCOnParentPush gh inc par [] =
            (Inr out, t' @ CreateTree sgcSha (treeUpdates st) # rest)"
  proof (cases r)
    case (Inl e)
    from handler_run[of gh par e "t' @ CreateTree sgcSha (treeUpdates st) # new"]
    obtain out more where
      "syncHandler gh par e (t' @ CreateTree sgcSha (treeUpdates st) # new) =
         (Inr out, (t' @ CreateTree sgcSha (treeUpdates st) # new) @ more)"
      by blast
    with body Inl show ?thesis
      by (simp add: updateSGCOnParentPush_def io_catch_def)
  next
    case (Inr out)
    with body show ?thesis
      by (simp add: updateSGCOnParentPush_def io_catch_def)
  qed
  with False show ?thesis by simp
qed

lemma staging_files:
  "[item \<leftarrow> specSource. item_type item = Blob \<and> isInShopifyFolder (path item)] =
     [blobItem ''assets/a.css'' ''id1'', blobItem ''config/settings_data.json'' ''id2'']"
  by (simp add: specSource_def blobItem_def isInShopifyFolder_def shopifyFolders_def)

lemma staging_plan:
  "planTreeUpdates (storeRemote specSource specTarget) True
     [blobItem ''assets/a.css'' ''id1'', blobItem ''config/settings_data.json'' ''id2'']
     specTarget
     [GetRef ''staging'', GetRef ''sgc-staging'', GetTree ''tip-staging'',
      GetTree ''tip-sgc-staging''] =
   (Inr \<lparr>treeUpdates = [putEntry (blobItem ''config/settings_data.json'' ''id2'') ''id2'',
            deleteEntry ''extra/file.txt''],
          filesUpdated = 1, filesAdded = 0, filesDeleted = 0, filesCleanedUp = 1\<rparr>,
    [GetRef ''staging'', GetRef ''sgc-staging'', GetTree ''tip-staging'',
     GetTree ''tip-sgc-staging'', GetBlob ''id2'', CreateBlob ''content-id2'' ''base64''])"
  by (simp add: specTarget_def eval_defs)

lemma production_files:
  "[item \<leftarrow> specSource. item_type item = Blob \<and> isInShopifyFolder (path item) \<and>
      (False \<or> \<not> suffix ''.json'' (path item) \<or>
       path item = ''config/settings_schema.json'')] =
     [blobItem ''assets/a.css'' ''id1'']"
  using spec_files unfolding shopifyFilesOf_explicit .

text \<open>
  C10. The four reads of the run having answered: for the parents \<^verbatim>\<open>staging\<close> and
  \<^verbatim>\<open>release\<close>, whatever the value of \<^verbatim>\<open>includeJsonFiles\<close>, the run plans over every blob of
  the Shopify folders of the parent tree, JSON files included, with the JSON exclusion off,
  and stops on that plan when it is empty or submits it in a tree creation; the run is the
  same as with \<^verbatim>\<open>includeJsonFiles\<close> set. For \<^verbatim>\<open>production\<close> the run plans over the blobs
  that pass the filter of the argument (JSON files only when it is set, the settings schema
  always) with the exclusion following the argument.
\<close>

theorem staging_and_release_always_include_json:
  assumes r1: "get_ref gh [] (parentName par) = Inr parentSha"
    and r2: "get_ref gh [GetRef (parentName par)] (''sgc-'' @ parentName par) = Inr sgcSha"
    and r3: "get_tree gh [GetRef (parentName par), GetRef (''sgc-'' @ parentName par)] parentSha =
           Inr src"
    and r4: "get_tree gh
           [GetRef (parentName par), GetRef (''sgc-'' @ parentName par), GetTree parentSha]
           sgcSha = Inr tgt"
  shows
    "(par \<noteq> Production \<longrightarrow>
        updateSGCOnParentPush gh inc par = updateSGCOnParentPush gh True par \<and>
        shopifyFilesOf (shouldIncludeJsonOf inc par) tree =
          [item \<leftarrow> tree. item_type item = Blob \<and> isInShopifyFolder (path item)] \<and>
        (\<forall>st t'.
           [item \<leftarrow> src. item_type item = Blob \<and> isInShopifyFolder (path item)] \<noteq> [] \<and>
           planTreeUpdates gh True
             [item \<leftarrow> src. item_type item = Blob \<and> isInShopifyFolder (path item)] tgt
             [GetRef (parentName par), GetRef (''sgc-'' @ parentName par), GetTree parentSha,
              GetTree sgcSha] = (Inr st, t') \<longrightarrow>
           (if treeUpdates st = []
            then updateSGCOnParentPush gh inc par [] = (Inr NoUpdates, t')
            else \<exists>out rest. updateSGCOnParentPush gh inc par [] =
                   (Inr out, t' @ CreateTree sgcSha (treeUpdates st) # rest)))) \<and>
     (par = Production \<longrightarrow>
        (\<forall>st t'.
           [item \<leftarrow> src. item_type item = Blob \<and> isInShopifyFolder (path item) \<and>
              (inc \<or> \<not> suffix ''.json'' (path item) \<or>
               path item = ''config/settings_schema.json'')] \<noteq> [] \<and>
           planTreeUpdates gh inc
             [item \<leftarrow> src. item_type item = Blob \<and> isInShopifyFolder (path item) \<and>
                (inc \<or> \<not> suffix ''.json'' (path item) \<or>
                 path item = ''config/settings_schema.json'')] tgt
             [GetRef (parentName par), GetRef (''sgc-'' @ parentName par), GetTree parentSha,
              GetTree sgcSha] = (Inr st, t') \<longrightarrow>
           (if treeUpdates st = []
            then updateSGCOnParentPush gh inc par [] = (Inr NoUpdates, t')
            else \<exists>out rest. updateSGCOnParentPush gh inc par [] =
                   (Inr out, t' @ CreateTree sgcSha (treeUpdates st) # rest)))) \<and>
     shouldIncludeJsonOf inc Production = inc"
proof (intro conjI impI allI)
  assume np: "par \<noteq> Production"
  then have sij: "shouldIncludeJsonOf inc par = True"
    by (cases par) (simp_all add: shouldIncludeJsonOf_def)
  show "updateSGCOnParentPush gh inc par = updateSGCOnParentPush gh True par"
    using np by (cases par)
      (simp_all add: updateSGCOnParentPush_def syncBody_def shouldIncludeJsonOf_def)
  show "shopifyFilesOf (shouldIncludeJsonOf inc par) tree =
          [item \<leftarrow> tree. item_type item = Blob \<and> isInShopifyFolder (path item)]"
    by (simp add: sij shopifyFilesOf_all)
  fix st t'
  assume h: "[item \<leftarrow> src. item_type item = Blob \<and> isInShopifyFolder (path item)] \<noteq> [] \<and>
           planTreeUpdates gh True
             [item \<leftarrow> src. item_type item = Blob \<and> isInShopifyFolder (path item)] tgt
             [GetRef (parentName par), GetRef (''sgc-'' @ parentName par), GetTree parentSha,
              GetTree sgcSha] = (Inr st, t')"
  then have ne: "shopifyFilesOf (shouldIncludeJsonOf inc par) src \<noteq> []"
    and plan: "planTreeUpdates gh (shouldIncludeJsonOf inc par)
           (shopifyFilesOf (shouldIncludeJsonOf inc par) src) tgt
           [GetRef (parentName par), GetRef (''sgc-'' @ parentName par), GetTree parentSha,
            GetTree sgcSha] = (Inr st, t')"
    by (simp_all add: sij shopifyFilesOf_all)
  show "if treeUpdates st = []
        then updateSGCOnParentPush gh inc par [] = (Inr NoUpdates, t')
        else \<exists>out rest. updateSGCOnParentPush gh inc par [] =
               (Inr out, t' @ CreateTree sgcSha (treeUpdates st) # rest)"
    by (rule run_submits_plan[OF r1 r2 r3 ne r4 plan])
next
  fix st t'
  assume p: "par = Production"
  then have sij: "shouldIncludeJsonOf inc par = inc"
    by (simp add: shouldIncludeJsonOf_def)
  assume h: "[item \<leftarrow> src. item_type item = Blob \<and> isInShopifyFolder (path item) \<and>
              (inc \<or> \<not> suffix ''.json'' (path item) \<or>
               path item = ''config/settings_schema.json'')] \<noteq> [] \<and>
           planTreeUpdates gh inc
             [item \<leftarrow> src. item_type item = Blob \<and> isInShopifyFolder (path item) \<and>
                (inc \<or> \<not> suffix ''.json'' (path item) \<or>
                 path item = ''config/settings_schema.json'')] tgt
             [GetRef (parentName par), GetRef (''sgc-'' @ parentName par), GetTree parentSha,
              GetTree sgcSha] = (Inr st, t')"
  then have ne: "shopifyFilesOf (shouldIncludeJsonOf inc par) src \<noteq> []"
    and plan: "planTreeUpdates gh (shouldIncludeJsonOf inc par)
           (shopifyFilesOf (shouldIncludeJsonOf inc par) src) tgt
           [GetRef (parentName par), GetRef (''sgc-'' @ parentName par), GetTree parentSha,
            GetTree sgcSha] = (Inr st, t')"
    by (simp_all add: sij shopifyFilesOf_explicit)
  show "if treeUpdates st = []
        then updateSGCOnParentPush gh inc par [] = (Inr NoUpdates, t')
        else \<exists>out rest. updateSGCOnParentPush gh inc par [] =
               (Inr out, t' @ CreateTree sgcSha (treeUpdates st) # rest)"
    by (rule run_submits_plan[OF r1 r2 r3 ne r4 plan])
next
  show "shouldIncludeJsonOf inc Production = inc"
    by (simp add: shouldIncludeJsonOf_def)
qed

theorem staging_and_release_always_include_json_witness:
  "Staging \<noteq> Production \<and>
   [item \<leftarrow> specSource. item_type item = Blob \<and> isInShopifyFolder (path item)] =
     [blobItem ''assets/a.css'' ''id1'', blobItem ''config/settings_data.json'' ''id2''] \<and>
   (\<exists>out rest. updateSGCOnParentPush (storeRemote specSource specTarget) False Staging [] =
      (Inr out,
       [GetRef ''staging'', GetRef ''sgc-staging'', GetTree ''tip-staging'',
        GetTree ''tip-sgc-staging'', GetBlob ''id2'', CreateBlob ''content-id2'' ''base64''] @
       CreateTree ''tip-sgc-staging''
         [putEntry (blobItem ''config/settings_data.json'' ''id2'') ''id2'',
          deleteEntry ''extra/file.txt''] # rest)) \<and>
   (\<exists>out rest. updateSGCOnParentPush (storeRemote specSource specTarget) False Production [] =
      (Inr out,
       [GetRef ''production'', GetRef ''sgc-production'', GetTree ''tip-production'',
        GetTree ''tip-sgc-production''] @
       CreateTree ''tip-sgc-production'' [deleteEntry ''extra/file.txt''] # rest))"
proof -
  let ?gh = "storeRemote specSource specTarget"
  let ?st = "\<lparr>treeUpdates = [putEntry (blobItem ''config/settings_data.json'' ''id2'') ''id2'',
                deleteEntry ''extra/file.txt''],
              filesUpdated = 1, filesAdded = 0, filesDeleted = 0, filesCleanedUp = 1\<rparr>"
  let ?log = "[GetRef ''staging'', GetRef ''sgc-staging'', GetTree ''tip-staging'',
     GetTree ''tip-sgc-staging'', GetBlob ''id2'', CreateBlob ''content-id2'' ''base64'']"
  have r1: "get_ref ?gh [] (parentName Staging) = Inr ''tip-staging''"
    by (simp add: storeRemote_def)
  have r2: "get_ref ?gh [GetRef (parentName Staging)] (''sgc-'' @ parentName Staging) =
      Inr ''tip-sgc-staging''"
    by (simp add: storeRemote_def)
  have r3: "get_tree ?gh [GetRef (parentName Staging), GetRef (''sgc-'' @ parentName Staging)]
      ''tip-staging'' = Inr specSource"
    by (simp add: storeRemote_def)
  have r4: "get_tree ?gh
      [GetRef (parentName Staging), GetRef (''sgc-'' @ parentName Staging),
       GetTree ''tip-staging''] ''tip-sgc-staging'' = Inr specTarget"
    by (simp add: storeRemote_def)
  have ne: "[item \<leftarrow> specSource. item_type item = Blob \<and> isInShopifyFolder (path item)] \<noteq> []"
    by (simp add: staging_files)
  have plan: "planTreeUpdates ?gh True
      [item \<leftarrow> specSource. item_type item = Blob \<and> isInShopifyFolder (path item)] specTarget
      [GetRef (parentName Staging), GetRef (''sgc-'' @ parentName Staging),
       GetTree ''tip-staging'', GetTree ''tip-sgc-staging''] = (Inr ?st, ?log)"
    unfolding staging_files using staging_plan by simp
  from staging_and_release_always_include_json[OF r1 r2 r3 r4, of False]
  have "\<forall>st t'.
      [item \<leftarrow> specSource. item_type item = Blob \<and> isInShopifyFolder (path item)] \<noteq> [] \<and>
      planTreeUpdates ?gh True
        [item \<leftarrow> specSource. item_type item = Blob \<and> isInShopifyFolder (path item)] specTarget
        [GetRef (parentName Staging), GetRef (''sgc-'' @ parentName Staging),
         GetTree ''tip-staging'', GetTree ''tip-sgc-staging''] = (Inr st, t') \<longrightarrow>
      (if treeUpdates st = []
       then updateSGCOnParentPush ?gh False Staging [] = (Inr NoUpdates, t')
       else \<exists>out rest. updateSGCOnParentPush ?gh False Staging [] =
              (Inr out, t' @ CreateTree ''tip-sgc-staging'' (treeUpdates st) # rest))"
    by blast
  with ne plan
  have "if treeUpdates ?st = []
       then updateSGCOnParentPush ?gh False Staging [] = (Inr NoUpdates, ?log)
       else \<exists>out rest. updateSGCOnParentPush ?gh False Staging [] =
              (Inr out, ?log @ CreateTree ''tip-sgc-staging'' (treeUpdates ?st) # rest)"
    by blast
  then have staging: "\<exists>out rest. updateSGCOnParentPush ?gh False Staging [] =
              (Inr out, ?log @ CreateTree ''tip-sgc-staging'' (treeUpdates ?st) # rest)"
    by (simp add: putEntry_def)
  let ?pst = "\<lparr>treeUpdates = [deleteEntry ''extra/file.txt''], filesUpdated = 0,
               filesAdded = 0, filesDeleted = 0, filesCleanedUp = 1\<rparr>"
  let ?plog = "[GetRef ''production'', GetRef ''sgc-production'', GetTree ''tip-production'',
     GetTree ''tip-sgc-production'']"
  let ?pfiles = "[item \<leftarrow> specSource. item_type item = Blob \<and> isInShopifyFolder (path item) \<and>
      (False \<or> \<not> suffix ''.json'' (path item) \<or>
       path item = ''config/settings_schema.json'')]"
  have p1: "get_ref ?gh [] (parentName Production) = Inr ''tip-production''"
    by (simp add: storeRemote_def)
  have p2: "get_ref ?gh [GetRef (parentName Production)] (''sgc-'' @ parentName Production) =
      Inr ''tip-sgc-production''"
    by (simp add: storeRemote_def)
  have p3: "get_tree ?gh
      [GetRef (parentName Production), GetRef (''sgc-'' @ parentName Production)]
      ''tip-production'' = Inr specSource"
    by (simp add: storeRemote_def)
  have p4: "get_tree ?gh
      [GetRef (parentName Production), GetRef (''sgc-'' @ parentName Production),
       GetTree ''tip-production''] ''tip-sgc-production'' = Inr specTarget"
    by (simp add: storeRemote_def)
  have pne: "?pfiles \<noteq> []"
    unfolding production_files by simp
  have pplan: "planTreeUpdates ?gh False ?pfiles specTarget
      [GetRef (parentName Production), GetRef (''sgc-'' @ parentName Production),
       GetTree ''tip-production'', GetTree ''tip-sgc-production''] = (Inr ?pst, ?plog)"
    unfolding production_files using spec_plan unfolding spec_files by simp
  from staging_and_release_always_include_json[OF p1 p2 p3 p4, of False]
  have "\<forall>st t'. ?pfiles \<noteq> [] \<and>
      planTreeUpdates ?gh False ?pfiles specTarget
        [GetRef (parentName Production), GetRef (''sgc-'' @ parentName Production),
         GetTree ''tip-production'', GetTree ''tip-sgc-production''] = (Inr st, t') \<longrightarrow>
      (if treeUpdates st = []
       then updateSGCOnParentPush ?gh False Production [] = (Inr NoUpdates, t')
       else \<exists>out rest. updateSGCOnParentPush ?gh False Production [] =
              (Inr out, t' @ CreateTree ''tip-sgc-production'' (treeUpdates st) # rest))"
    by blast
  with pne pplan
  have "if treeUpdates ?pst = []
       then updateSGCOnParentPush ?gh False Production [] = (Inr NoUpdates, ?plog)
       else \<exists>out rest. updateSGCOnParentPush ?gh False Production [] =
              (Inr out, ?plog @ CreateTree ''tip-sgc-production'' (treeUpdates ?pst) # rest)"
    by blast
  then have production: "\<exists>out rest. updateSGCOnParentPush ?gh False Production [] =
              (Inr out, ?plog @ CreateTree ''tip-sgc-production'' (treeUpdates ?pst) # rest)"
    by (simp add: deleteEntry_def)
  from staging_files staging production show ?thesis by simp
qed

section \<open>\<^verbatim>\<open>updateReleaseOnStagingPush\<close>: the rebase by tree copy\<close>

text \<open>
  C8. With the release branch present and both tips read: when the tips are equal the
  function returns after the three ref reads, with no commit creation and no ref update;
  otherwise, the commit of the staging tip being read and the new commit created, it has
  created one commit whose tree is the tree of the staging tip and whose only parent is
  the staging tip, and has asked for the release ref to be moved to it with force.
\<close>

theorem rebase_copies_tree_or_does_nothing:
  assumes "get_ref gh [] ''release'' = Inr r0"
    and "get_ref gh [GetRef ''release''] ''staging'' = Inr stagingSha"
    and "get_ref gh [GetRef ''release'', GetRef ''staging''] ''release'' = Inr releaseSha"
  shows "(releaseSha = stagingSha \<longrightarrow>
            updateReleaseOnStagingPush gh [] =
              (Inr UpToDate, [GetRef ''release'', GetRef ''staging'', GetRef ''release''])) \<and>
         (releaseSha \<noteq> stagingSha \<longrightarrow>
            (\<forall>stagingTree rebaseCommit.
               get_commit gh [GetRef ''release'', GetRef ''staging'', GetRef ''release'']
                 stagingSha = Inr stagingTree \<and>
               create_commit gh [GetRef ''release'', GetRef ''staging'', GetRef ''release'',
                   GetCommit stagingSha]
                 (''Rebase release onto staging ('' @ take 7 stagingSha @ '')'')
                 stagingTree [stagingSha] = Inr rebaseCommit \<longrightarrow>
               snd (updateReleaseOnStagingPush gh []) =
                 [GetRef ''release'', GetRef ''staging'', GetRef ''release'',
                  GetCommit stagingSha,
                  CreateCommit (''Rebase release onto staging ('' @ take 7 stagingSha @ '')'')
                    stagingTree [stagingSha],
                  UpdateRef ''release'' rebaseCommit True]))"
  using assms
  by (auto simp: updateReleaseOnStagingPush_def checkReleaseBranch_def io_catch_def io_bind_def
      io_return_def io_throw_def getRef_def getCommit_def createCommit_def updateRef_def
      rateLimitedRequest_def split: sum.splits)

theorem rebase_copies_tree_or_does_nothing_witness:
  "updateReleaseOnStagingPush mirrorRemote [] =
     (Inr UpToDate, [GetRef ''release'', GetRef ''staging'', GetRef ''release'']) \<and>
   snd (updateReleaseOnStagingPush (storeRemote [] []) []) =
     [GetRef ''release'', GetRef ''staging'', GetRef ''release'', GetCommit ''tip-staging'',
      CreateCommit ''Rebase release onto staging (tip-sta)'' ''tree-tip-staging''
        [''tip-staging''],
      UpdateRef ''release'' ''new-commit'' True]"
proof -
  have m: "get_ref mirrorRemote [] ''release'' = Inr ''tip''"
    "get_ref mirrorRemote [GetRef ''release''] ''staging'' = Inr ''tip''"
    "get_ref mirrorRemote [GetRef ''release'', GetRef ''staging''] ''release'' = Inr ''tip''"
    by (simp_all add: mirrorRemote_def storeRemote_def)
  have s: "get_ref (storeRemote [] []) [] ''release'' = Inr ''tip-release''"
    "get_ref (storeRemote [] []) [GetRef ''release''] ''staging'' = Inr ''tip-staging''"
    "get_ref (storeRemote [] []) [GetRef ''release'', GetRef ''staging''] ''release'' =
       Inr ''tip-release''"
    by (simp_all add: storeRemote_def)
  from rebase_copies_tree_or_does_nothing[OF m] rebase_copies_tree_or_does_nothing[OF s]
  show ?thesis by (simp add: storeRemote_def)
qed

section \<open>The second run, when no new object is shared\<close>

text \<open>\<^verbatim>\<open>sgcFiles.get(p)\<close> is the sha of the last blob entry of the tree with the path \<open>p\<close>.\<close>

lemma sgcFiles_lookup:
  "map_of (fst (sgcIndex t)) p =
     (if [it \<leftarrow> t. item_type it = Blob \<and> path it = p] = [] then None
      else Some (sha (last [it \<leftarrow> t. item_type it = Blob \<and> path it = p])))"
  by (induction t rule: rev_induct)
     (auto simp: sgcIndex_Nil sgcIndex_snoc sgcIndexStep_def update_conv')

lemma filter_replaced_same:
  "[it \<leftarrow> map (\<lambda>it. if path it = q then \<lparr>path = q, mode = m, item_type = Blob, sha = s\<rparr> else it) t.
      item_type it = Blob \<and> path it = q] =
   map (\<lambda>it. \<lparr>path = q, mode = m, item_type = Blob, sha = s\<rparr>) [it \<leftarrow> t. path it = q]"
  by (induction t) auto

lemma filter_replaced_other:
  "p \<noteq> q \<Longrightarrow>
   [it \<leftarrow> map (\<lambda>it. if path it = q then \<lparr>path = q, mode = m, item_type = Blob, sha = s\<rparr> else it) t.
      item_type it = Blob \<and> path it = p] =
   [it \<leftarrow> t. item_type it = Blob \<and> path it = p]"
  by (induction t) auto

lemma filter_removed_other:
  "p \<noteq> q \<Longrightarrow>
   [it \<leftarrow> t. path it \<noteq> q \<and> item_type it = Blob \<and> path it = p] =
   [it \<leftarrow> t. item_type it = Blob \<and> path it = p]"
  by (induction t) auto

lemma filter_removed_same:
  "[it \<leftarrow> t. path it \<noteq> q \<and> item_type it = Blob \<and> path it = q] = []"
  by (induction t) auto

lemma lookup_applyUpdate:
  assumes "u_sha u \<noteq> None \<longrightarrow> u_type u = Blob"
  shows "map_of (fst (sgcIndex (applyUpdate t u))) p =
     (if p = u_path u then u_sha u else map_of (fst (sgcIndex t)) p)"
proof (cases "u_sha u")
  case None
  then show ?thesis
    by (simp add: applyUpdate_def sgcFiles_lookup filter_removed_other filter_removed_same)
next
  case (Some s)
  with assms have ty: "u_type u = Blob" by simp
  show ?thesis
  proof (cases "list_ex (\<lambda>item. path item = u_path u) t")
    case True
    then have ne: "[it \<leftarrow> t. path it = u_path u] \<noteq> []"
      by (auto simp: list_ex_iff filter_empty_conv)
    show ?thesis
    proof (cases "p = u_path u")
      case True
      with ne \<open>list_ex (\<lambda>item. path item = u_path u) t\<close> show ?thesis
        by (simp add: applyUpdate_def Some ty Let_def sgcFiles_lookup filter_replaced_same
            last_map)
    next
      case False
      with True show ?thesis
        by (simp add: applyUpdate_def Some ty Let_def sgcFiles_lookup filter_replaced_other)
    qed
  next
    case False
    then show ?thesis
      by (simp add: applyUpdate_def Some ty Let_def sgcFiles_lookup)
  qed
qed

lemma applyTreeUpdates_snoc:
  "applyTreeUpdates t (ups @ [u]) = applyUpdate (applyTreeUpdates t ups) u"
  by (simp add: applyTreeUpdates_def)

lemma lookup_untouched:
  assumes "\<forall>u \<in> set ups. u_sha u \<noteq> None \<longrightarrow> u_type u = Blob" and "p \<notin> u_path ` set ups"
  shows "map_of (fst (sgcIndex (applyTreeUpdates t ups))) p = map_of (fst (sgcIndex t)) p"
  using assms
  by (induction ups rule: rev_induct)
     (simp_all add: applyTreeUpdates_def lookup_applyUpdate)

lemma lookup_updated:
  assumes "\<forall>u \<in> set ups. u_sha u \<noteq> None \<longrightarrow> u_type u = Blob"
    and "distinct (map u_path ups)" and "u \<in> set ups"
  shows "map_of (fst (sgcIndex (applyTreeUpdates t ups))) (u_path u) = u_sha u"
  using assms
proof (induction ups rule: rev_induct)
  case Nil
  then show ?case by simp
next
  case (snoc v ups)
  show ?case
  proof (cases "u = v")
    case True
    with snoc.prems(1) show ?thesis
      by (simp add: applyTreeUpdates_snoc lookup_applyUpdate)
  next
    case False
    with snoc.prems have "u \<in> set ups" by auto
    moreover from snoc.prems(2) have "u_path v \<notin> u_path ` set ups" by simp
    ultimately have "u \<in> set ups" "u_path u \<noteq> u_path v" by (auto simp: image_iff)
    with snoc show ?thesis
      by (simp add: applyTreeUpdates_snoc lookup_applyUpdate)
  qed
qed

lemma plan_entry_types:
  assumes "planTreeUpdates gh sij fs tgt t = (Inr st, t')" and "u \<in> set (treeUpdates st)"
  shows "u_type u = Blob"
proof -
  have "u_type (putEntry f n) = Blob" "u_type (deleteEntry q) = Blob" for f n q
    by (simp_all add: putEntry_def deleteEntry_def)
  with plan_entries[OF assms] show ?thesis by metis
qed

lemma plan_without_copies:
  assumes "blobEntries tgt fs = []"
  shows "\<exists>st. planTreeUpdates gh sij fs tgt t = (Inr st, t)"
  using assms
  by (simp add: planTreeUpdates_def Let_def reuseLoop_fetch blobEntries_def io_bind_def
      io_return_def)

lemma only_file_is_last:
  assumes "f \<in> set fs" and "\<forall>g \<in> set fs. sha g = sha f \<longrightarrow> g = f"
  shows "List.find (\<lambda>h. sha h = sha f) (rev fs) = Some f"
proof -
  from assms(1) obtain l where l: "List.find (\<lambda>h. sha h = sha f) (rev fs) = Some l"
    by (cases "List.find (\<lambda>h. sha h = sha f) (rev fs)") (auto simp: find_None_iff)
  then have "l \<in> set fs \<and> sha l = sha f"
    by (auto simp: find_Some_iff) (metis length_rev nth_mem set_rev)
  with assms(2) l show ?thesis by auto
qed

text \<open>
  The second run on the tree the first plan leaves behind has an empty plan and issues no
  request, under two conditions: every created blob got the object id under which it was
  read (the store is content-addressed), and no two files of the filtered parent share an
  object id that the target lacks.
\<close>

lemma second_plan_empty_without_shared_objects:
  assumes run: "planTreeUpdates gh sij (shopifyFilesOf sij src) tgt t = (Inr st, t')"
    and d: "distinct (map path src)"
    and addressed: "\<forall>f \<in> set (shopifyFilesOf sij src). \<forall>n.
        putEntry f n \<in> set (treeUpdates st) \<longrightarrow> n = sha f"
    and unshared: "\<forall>f \<in> set (shopifyFilesOf sij src). \<forall>g \<in> set (shopifyFilesOf sij src).
        sha g = sha f \<and> sha f \<notin> snd (sgcIndex tgt) \<longrightarrow> g = f"
  shows "\<exists>st2. planTreeUpdates gh2 sij (shopifyFilesOf sij src)
            (applyTreeUpdates tgt (treeUpdates st)) t2 = (Inr st2, t2) \<and> treeUpdates st2 = []"
proof -
  let ?fs = "shopifyFilesOf sij src" and ?ups = "treeUpdates st"
  let ?T = "applyTreeUpdates tgt ?ups"
  let ?L = "map_of (fst (sgcIndex tgt))" and ?L2 = "map_of (fst (sgcIndex ?T))"
  have ty: "\<forall>u \<in> set ?ups. u_sha u \<noteq> None \<longrightarrow> u_type u = Blob"
    using plan_entry_types[OF run] by blast
  have dist: "distinct (map u_path ?ups)"
    by (rule plan_distinct[OF run shopifyFilesOf_distinct[OF d]])
  have current: "?L2 (path f) = Some (sha f)" if f: "f \<in> set ?fs" for f
  proof (cases "?L (path f) = Some (sha f)")
    case True
    have "path f \<notin> u_path ` set ?ups"
    proof
      assume "path f \<in> u_path ` set ?ups"
      then obtain u where "u \<in> set ?ups" "u_path u = path f" by auto
      with up_to_date_omitted[OF run d f True] show False by blast
    qed
    from lookup_untouched[OF ty this] True show ?thesis by simp
  next
    case False
    have "sha f \<in> snd (sgcIndex tgt) \<or> List.find (\<lambda>h. sha h = sha f) (rev ?fs) = Some f"
    proof (cases "sha f \<in> snd (sgcIndex tgt)")
      case True then show ?thesis ..
    next
      case False
      with unshared f have "\<forall>g \<in> set ?fs. sha g = sha f \<longrightarrow> g = f" by blast
      from only_file_is_last[OF f this] show ?thesis ..
    qed
    from needed_file_gets_put[OF run f False this] obtain n where
      n: "putEntry f n \<in> set ?ups" by blast
    with addressed f have "n = sha f" by blast
    with lookup_updated[OF ty dist n] show ?thesis by simp
  qed
  have gone: "?L2 p = None"
    if p: "p \<notin> path ` set ?fs"
      "p \<in> fst ` set (fst (sgcIndex tgt)) \<longrightarrow> deleteEntry p \<in> set ?ups"
    for p
  proof (cases "p \<in> u_path ` set ?ups")
    case True
    then obtain u where u: "u \<in> set ?ups" "u_path u = p" by auto
    have "u_sha u = None"
    proof (rule ccontr)
      assume "u_sha u \<noteq> None"
      from plan_put_path[OF run u(1) this] u(2) p(1) show False by simp
    qed
    with lookup_updated[OF ty dist u(1)] u(2) show ?thesis by simp
  next
    case False
    from lookup_untouched[OF ty False] have same: "?L2 p = ?L p" .
    show ?thesis
    proof (rule ccontr)
      assume "?L2 p \<noteq> None"
      with same have "?L p \<noteq> None" by simp
      then have "p \<in> fst ` set (fst (sgcIndex tgt))"
        by (metis domIff dom_map_of_conv_image_fst)
      with p(2) have "deleteEntry p \<in> set ?ups" by simp
      then have "p \<in> u_path ` set ?ups" by force
      with False show False by simp
    qed
  qed
  have keys2: "p \<in> fst ` set (fst (sgcIndex ?T)) \<longleftrightarrow> ?L2 p \<noteq> None" for p
    by (metis domIff dom_map_of_conv_image_fst)
  have noneed: "\<not> needsPut (fst (sgcIndex ?T)) f" if "f \<in> set ?fs" for f
    using current[OF that] by (simp add: needsPut_def)
  have R: "reusedFiles ?T ?fs = []"
    using noneed by (auto simp: reusedFiles_def filter_empty_conv)
  have F: "blobEntries ?T ?fs = []"
  proof -
    have "[f \<leftarrow> ?fs. needsPut (fst (sgcIndex ?T)) f \<and> sha f \<notin> snd (sgcIndex ?T)] = []"
      using noneed by (auto simp: filter_empty_conv)
    then show ?thesis by (simp add: blobEntries_def lastBySha_Nil)
  qed
  have Dl: "deletedPaths sij ?T ?fs = []"
  proof -
    have False if q: "q \<in> set (deletedPaths sij ?T ?fs)" for q
    proof -
      from q have k: "?L2 q \<noteq> None" and props: "isInShopifyFolder q"
        "\<not> shouldExcludeJson sij q" "q \<notin> path ` set ?fs"
        using keys2[of q] by (auto simp: deletedPaths_def)
      have "q \<in> fst ` set (fst (sgcIndex tgt)) \<longrightarrow> deleteEntry q \<in> set ?ups"
      proof
        assume "q \<in> fst ` set (fst (sgcIndex tgt))"
        with props have "q \<in> set (deletedPaths sij tgt ?fs)" by (simp add: deletedPaths_def)
        from plan_has_deletion[OF run this] show "deleteEntry q \<in> set ?ups" .
      qed
      from gone[OF props(3) this] k show False by blast
    qed
    then show ?thesis by (cases "deletedPaths sij ?T ?fs") auto
  qed
  have Cl: "cleanedPaths ?T ?fs = []"
  proof -
    have False if q: "q \<in> set (cleanedPaths ?T ?fs)" for q
    proof -
      from q have k: "?L2 q \<noteq> None" and out: "\<not> isInShopifyFolder q"
        using keys2[of q] by (auto simp: cleanedPaths_def)
      from out have nf: "q \<notin> path ` set ?fs" by (auto simp: shopifyFilesOf_mem)
      have "q \<in> fst ` set (fst (sgcIndex tgt)) \<longrightarrow> deleteEntry q \<in> set ?ups"
        using plan_has_cleanup[OF run _ out nf] by blast
      from gone[OF nf this] k show False by blast
    qed
    then show ?thesis by (cases "cleanedPaths ?T ?fs") auto
  qed
  from plan_without_copies[OF F] obtain st2 where
    run2: "planTreeUpdates gh2 sij ?fs ?T t2 = (Inr st2, t2)" by blast
  from plan_run[OF run2] have "treeUpdates st2 = []"
    by (auto simp: R F Dl Cl)
  with run2 show ?thesis by blast
qed

text \<open>
  C3. A path the target holds with the same object id has no entry (lemma
  \<open>up_to_date_omitted\<close>), an empty plan issues no request after the reads (lemma
  \<open>empty_plan_zero_op\<close>), and the second run is empty when no new object is shared (lemma
  \<open>second_plan_empty_without_shared_objects\<close>); but a second run on an unchanged parent is
  not empty in general. The parent holds
  \<^verbatim>\<open>assets/a.css\<close> and \<^verbatim>\<open>assets/b.css\<close> with one object id that the target lacks. The first
  run creates a tree with \<^verbatim>\<open>assets/b.css\<close> only; on the target this leaves behind, the second
  run creates a tree, a commit and moves the ref again, to add \<^verbatim>\<open>assets/a.css\<close>.
\<close>

theorem second_run_not_empty_after_shared_object:
  "updateSGCOnParentPush (storeRemote dupSource dupTarget) False Production [] =
     (Inr Synced,
      [GetRef ''production'', GetRef ''sgc-production'', GetTree ''tip-production'',
       GetTree ''tip-sgc-production'', GetBlob ''X'', CreateBlob ''content-X'' ''base64'',
       CreateTree ''tip-sgc-production'' [putEntry (blobItem ''assets/b.css'' ''X'') ''X''],
       CreateCommit ''Sync Shopify files from production (1 added)'' ''new-tree''
         [''tip-sgc-production''],
       UpdateRef ''sgc-production'' ''new-commit'' False]) \<and>
   updateSGCOnParentPush
       (storeRemote dupSource
          (applyTreeUpdates dupTarget [putEntry (blobItem ''assets/b.css'' ''X'') ''X'']))
       False Production [] =
     (Inr Synced,
      [GetRef ''production'', GetRef ''sgc-production'', GetTree ''tip-production'',
       GetTree ''tip-sgc-production'',
       CreateTree ''tip-sgc-production'' [putEntry (blobItem ''assets/a.css'' ''X'') ''X''],
       CreateCommit ''Sync Shopify files from production (1 added)'' ''new-tree''
         [''tip-sgc-production''],
       UpdateRef ''sgc-production'' ''new-commit'' False])"
  by (simp add: dupSource_def dupTarget_def applyTreeUpdates_def applyUpdate_def run_defs eval_defs)

end
